theory Spec2Isabelle
  imports Main
begin

section \<open>Data model (solver.py, lines 9-25; main.py, lines 12-29)\<close>

record Guest =
  guest_id :: string
  name :: string
  arrival_min :: int

text \<open>
  The grouping rule is a dictionary read at the keys \<open>guest_id_a\<close>, \<open>guest_id_b\<close> and
  \<open>vehicle_index\<close> (solver.py, lines 172-174).
\<close>

record together_rule =
  guest_id_a :: string
  guest_id_b :: string
  rule_vehicle_index :: int

record SolveParams =
  num_cars :: int
  capacity_per_car :: int
  max_wait_min :: int
  time_horizon_min :: "int option"
  round_trip_min :: int
  vehicle_capacities :: "int list option"
  incompatible_pairs :: "(string \<times> string) list option"
  must_ride_together_in_vehicle :: "together_rule option"

text \<open>
  The dictionaries the solver returns. A key that a dictionary does not have is a field
  that is \<open>None\<close>. The three literals at lines 33-40, 225-228 and 265-275 of solver.py
  build them.
\<close>

record guest_row =
  row_guest_id :: string
  row_name :: string
  row_arrival_min :: int
  wait_min :: int

record trip =
  trip_index :: nat
  vehicle_index :: "nat option"
  vehicle_capacity :: "int option"
  departure_min :: int
  min_arrival_min :: int
  max_arrival_min :: int
  trip_num_guests :: nat
  trip_guests :: "guest_row list"

record solve_result =
  status :: string
  reason :: "string option"
  res_num_guests :: "nat option"
  res_num_vehicles :: "int option"
  res_vehicle_capacities :: "int list option"
  res_max_wait_min :: "int option"
  res_round_trip_min :: "int option"
  num_trips_used :: "nat option"
  total_wait_min :: "int option"
  trips :: "trip list option"

text \<open>Every \<open>raise\<close> of solver.py is a \<open>ValueError\<close> with a message.\<close>

datatype error = ValueError string

text \<open>
  Python's \<open>min\<close> and \<open>max\<close> of a list that is not empty. On the empty list they
  raise; every call below is on a list with an element.
\<close>

fun py_min :: "int list \<Rightarrow> int" where
  "py_min (x # xs) = fold min xs x"

fun py_max :: "int list \<Rightarrow> int" where
  "py_max (x # xs) = fold max xs x"

section \<open>The constraint programming interface (ortools cp_model)\<close>

text \<open>
  The optimisation library is an external collaborator. Its variables are named here by
  the Python lists that hold them; a solution gives every variable an integer, which is
  what \<open>solver.Value\<close> reads. A constraint is the set of solutions that satisfy it,
  and the model is the list of the constraints added, with the objective.
\<close>

datatype var =
    X nat nat
  | Used nat
  | Dep nat
  | Min_arr nat
  | Max_arr nat
  | Z nat nat
  | Vmin nat nat
  | Vmax nat nat
  | Dummy_min nat
  | Dummy_max nat
  | End nat nat
  | Dep_guest nat
  | Wait nat
  | Total_wait

type_synonym valuation = "var \<Rightarrow> int"

type_synonym constr = "valuation \<Rightarrow> bool"

datatype literal = Pos var | Not var

fun lit_holds :: "valuation \<Rightarrow> literal \<Rightarrow> bool" where
  "lit_holds s (Pos b) = (s b = 1)"
| "lit_holds s (Not b) = (s b = 0)"

definition NewBoolVar :: "var \<Rightarrow> constr" where
  "NewBoolVar b = (\<lambda>s. 0 \<le> s b \<and> s b \<le> 1)"

definition NewIntVar :: "int \<Rightarrow> int \<Rightarrow> var \<Rightarrow> constr" where
  "NewIntVar lb ub x = (\<lambda>s. lb \<le> s x \<and> s x \<le> ub)"

definition OnlyEnforceIf :: "constr \<Rightarrow> literal \<Rightarrow> constr" where
  "OnlyEnforceIf c l = (\<lambda>s. lit_holds s l \<longrightarrow> c s)"

definition AddImplication :: "var \<Rightarrow> var \<Rightarrow> constr" where
  "AddImplication a b = (\<lambda>s. s a = 1 \<longrightarrow> s b = 1)"

definition AddMinEquality :: "var \<Rightarrow> var list \<Rightarrow> constr" where
  "AddMinEquality target xs = (\<lambda>s. s target = py_min (map s xs))"

definition AddMaxEquality :: "var \<Rightarrow> var list \<Rightarrow> constr" where
  "AddMaxEquality target xs = (\<lambda>s. s target = py_max (map s xs))"

text \<open>
  An optional interval has a start, a fixed size, an end and a presence literal. When it
  is present its end is its start plus its size and the size is not negative.
  \<open>AddNoOverlap\<close> asks that of any two present intervals of the list one ends no later
  than the other starts.
\<close>

record interval_var =
  iv_start :: var
  iv_size :: int
  iv_end :: var
  iv_present :: var

definition NewOptionalIntervalVar :: "var \<Rightarrow> int \<Rightarrow> var \<Rightarrow> var \<Rightarrow> interval_var" where
  "NewOptionalIntervalVar start sz fin is_present =
     \<lparr>iv_start = start, iv_size = sz, iv_end = fin, iv_present = is_present\<rparr>"

definition interval_ok :: "interval_var \<Rightarrow> constr" where
  "interval_ok iv =
     (\<lambda>s. s (iv_present iv) = 1 \<longrightarrow> s (iv_start iv) + iv_size iv = s (iv_end iv) \<and> 0 \<le> iv_size iv)"

definition AddNoOverlap :: "interval_var list \<Rightarrow> constr" where
  "AddNoOverlap ivs =
     (\<lambda>s. \<forall>a \<in> {..<length ivs}. \<forall>b \<in> {..<length ivs}.
        a \<noteq> b \<and> s (iv_present (ivs ! a)) = 1 \<and> s (iv_present (ivs ! b)) = 1 \<longrightarrow>
        s (iv_end (ivs ! a)) \<le> s (iv_start (ivs ! b)) \<or> s (iv_end (ivs ! b)) \<le> s (iv_start (ivs ! a)))"

record cp_model =
  constraints :: "constr list"
  objective :: "valuation \<Rightarrow> int"

datatype cp_status = UNKNOWN | MODEL_INVALID | FEASIBLE | INFEASIBLE | OPTIMAL

text \<open>
  \<open>solver.Solve(model)\<close> answers with a status and, through \<open>solver.Value\<close>, with the
  solution it found.
\<close>

type_synonym cp_solver = "cp_model \<Rightarrow> cp_status \<times> valuation"

definition satisfies :: "valuation \<Rightarrow> cp_model \<Rightarrow> bool" where
  "satisfies s mdl = list_all (\<lambda>c. c s) (constraints mdl)"

text \<open>
  What the program relies on: a solution reported as \<open>OPTIMAL\<close> or \<open>FEASIBLE\<close>
  satisfies every constraint of the model.
\<close>

definition solver_contract :: "cp_solver \<Rightarrow> bool" where
  "solver_contract solver =
     (\<forall>mdl. fst (solver mdl) \<in> {OPTIMAL, FEASIBLE} \<longrightarrow> satisfies (snd (solver mdl)) mdl)"

text \<open>
  A solution is optimal when it satisfies the model and no solution that satisfies the
  model has a smaller objective.
\<close>

definition optimal :: "valuation \<Rightarrow> cp_model \<Rightarrow> bool" where
  "optimal s mdl =
     (satisfies s mdl \<and> (\<forall>s'. satisfies s' mdl \<longrightarrow> objective mdl s \<le> objective mdl s'))"

section \<open>Capacities (solver.py, lines 42-64)\<close>

text \<open>Python's \<open>xs[:k]\<close>: a negative \<open>k\<close> counts from the end.\<close>

definition py_slice_to :: "'a list \<Rightarrow> int \<Rightarrow> 'a list" where
  "py_slice_to xs k = (if 0 \<le> k then take (nat k) xs else take (nat (int (length xs) + k)) xs)"

definition vehicle_caps_of :: "SolveParams \<Rightarrow> int list" where
  "vehicle_caps_of params =
     (let K = num_cars params;
          vehicle_caps = (case vehicle_capacities params of
                            None \<Rightarrow> replicate (nat K) (capacity_per_car params)
                          | Some raw_caps \<Rightarrow> raw_caps)
      in if int (length vehicle_caps) < K
         then vehicle_caps @ replicate (nat (K - int (length vehicle_caps))) (capacity_per_car params)
         else if int (length vehicle_caps) > K then py_slice_to vehicle_caps K
         else vehicle_caps)"

section \<open>The formulation (solver.py, lines 66-217)\<close>

definition BIG_NEG :: int where
  "BIG_NEG = - 10000"

definition BIG_POS :: "int \<Rightarrow> int" where
  "BIG_POS horizon = horizon + 10000"

definition arrivals :: "Guest list \<Rightarrow> int list" where
  "arrivals guests = map arrival_min guests"

definition min_a :: "Guest list \<Rightarrow> int" where
  "min_a guests = py_min (arrivals guests)"

definition max_a :: "Guest list \<Rightarrow> int" where
  "max_a guests = py_max (arrivals guests)"

definition horizon_of :: "Guest list \<Rightarrow> SolveParams \<Rightarrow> int" where
  "horizon_of guests params =
     (case time_horizon_min params of
        None \<Rightarrow> max_a guests + max_wait_min params + round_trip_min params
      | Some horizon \<Rightarrow> horizon)"

text \<open>The dictionary comprehension of line 81: a later guest with the same id wins.\<close>

definition id_to_i :: "Guest list \<Rightarrow> string \<rightharpoonup> nat" where
  "id_to_i guests = fold (\<lambda>(i, g) d. d(guest_id g \<mapsto> i)) (enumerate 0 guests) Map.empty"

text \<open>Lines 86-101: the variables declared before the constraints, each with its domain.\<close>

definition declared_vars :: "nat \<Rightarrow> nat \<Rightarrow> nat \<Rightarrow> int \<Rightarrow> int \<Rightarrow> int \<Rightarrow> constr list" where
  "declared_vars n M K lo hi horizon =
     concat (map (\<lambda>i. map (\<lambda>m. NewBoolVar (X i m)) [0..<M]) [0..<n])
     @ map (\<lambda>m. NewBoolVar (Used m)) [0..<M]
     @ map (\<lambda>m. NewIntVar lo horizon (Dep m)) [0..<M]
     @ map (\<lambda>m. NewIntVar lo (BIG_POS horizon) (Min_arr m)) [0..<M]
     @ map (\<lambda>m. NewIntVar BIG_NEG hi (Max_arr m)) [0..<M]
     @ concat (map (\<lambda>m. map (\<lambda>k. NewBoolVar (Z m k)) [0..<K]) [0..<M])"

text \<open>Lines 104-105: each guest is in exactly one trip.\<close>

definition one_trip_each :: "nat \<Rightarrow> nat \<Rightarrow> constr list" where
  "one_trip_each n M = map (\<lambda>i. (\<lambda>s. (\<Sum>m\<leftarrow>[0..<M]. s (X i m)) = 1)) [0..<n]"

text \<open>Lines 108-160: the body of the loop over the trips, for trip \<open>m\<close>.\<close>

definition trip_load :: "nat \<Rightarrow> nat \<Rightarrow> valuation \<Rightarrow> int" where
  "trip_load n m s = (\<Sum>i\<leftarrow>[0..<n]. s (X i m))"

definition masked_arrivals :: "Guest list \<Rightarrow> int \<Rightarrow> int \<Rightarrow> int \<Rightarrow> nat \<Rightarrow> nat \<Rightarrow> constr list" where
  "masked_arrivals guests lo hi horizon m i =
     (let a_i = arrival_min (guests ! i) in
      [NewIntVar lo (BIG_POS horizon) (Vmin i m),
       NewIntVar BIG_NEG hi (Vmax i m),
       OnlyEnforceIf (\<lambda>s. s (Vmin i m) = a_i) (Pos (X i m)),
       OnlyEnforceIf (\<lambda>s. s (Vmin i m) = BIG_POS horizon) (Not (X i m)),
       OnlyEnforceIf (\<lambda>s. s (Vmax i m) = a_i) (Pos (X i m)),
       OnlyEnforceIf (\<lambda>s. s (Vmax i m) = BIG_NEG) (Not (X i m))])"

definition trip_constraints ::
  "Guest list \<Rightarrow> int list \<Rightarrow> nat \<Rightarrow> int \<Rightarrow> int \<Rightarrow> int \<Rightarrow> int \<Rightarrow> nat \<Rightarrow> constr list" where
  "trip_constraints guests vehicle_caps K W lo hi horizon m =
     (let n = length guests in
      map (\<lambda>i. AddImplication (X i m) (Used m)) [0..<n]
      @ [OnlyEnforceIf (\<lambda>s. trip_load n m s \<ge> 1) (Pos (Used m)),
         OnlyEnforceIf (\<lambda>s. trip_load n m s = 0) (Not (Used m)),
         (\<lambda>s. (\<Sum>k\<leftarrow>[0..<K]. s (Z m k)) = s (Used m)),
         (\<lambda>s. trip_load n m s \<le> (\<Sum>k\<leftarrow>[0..<K]. vehicle_caps ! k * s (Z m k)))]
      @ concat (map (masked_arrivals guests lo hi horizon m) [0..<n])
      @ [NewIntVar lo (BIG_POS horizon) (Dummy_min m),
         NewIntVar BIG_NEG hi (Dummy_max m),
         OnlyEnforceIf (\<lambda>s. s (Dummy_min m) = lo) (Not (Used m)),
         OnlyEnforceIf (\<lambda>s. s (Dummy_min m) = BIG_POS horizon) (Pos (Used m)),
         OnlyEnforceIf (\<lambda>s. s (Dummy_max m) = lo) (Not (Used m)),
         OnlyEnforceIf (\<lambda>s. s (Dummy_max m) = BIG_NEG) (Pos (Used m)),
         AddMinEquality (Min_arr m) (map (\<lambda>i. Vmin i m) [0..<n] @ [Dummy_min m]),
         AddMaxEquality (Max_arr m) (map (\<lambda>i. Vmax i m) [0..<n] @ [Dummy_max m]),
         (\<lambda>s. s (Dep m) = s (Max_arr m)),
         OnlyEnforceIf (\<lambda>s. s (Max_arr m) - s (Min_arr m) \<le> W) (Pos (Used m))])"

text \<open>Lines 163-168: a pair with an id that \<open>id_to_i\<close> does not have is passed over.\<close>

definition incompatible_constraints ::
  "(string \<rightharpoonup> nat) \<Rightarrow> nat \<Rightarrow> (string \<times> string) list \<Rightarrow> constr list" where
  "incompatible_constraints ids M pairs =
     concat (map (\<lambda>(gid1, gid2).
        (case (ids gid1, ids gid2) of
           (Some i1, Some i2) \<Rightarrow> map (\<lambda>m. (\<lambda>s. s (X i1 m) + s (X i2 m) \<le> 1)) [0..<M]
         | _ \<Rightarrow> [])) pairs)"

text \<open>Lines 171-186: the grouping rule, with its two errors.\<close>

definition together_constraints ::
  "(string \<rightharpoonup> nat) \<Rightarrow> nat \<Rightarrow> int \<Rightarrow> together_rule option \<Rightarrow> error + constr list" where
  "together_constraints ids M K rule =
     (case rule of
        None \<Rightarrow> Inr []
      | Some r \<Rightarrow>
          (case (ids (guest_id_a r), ids (guest_id_b r)) of
             (Some ia, Some ib) \<Rightarrow>
               (let k0 = rule_vehicle_index r in
                if \<not> (0 \<le> k0 \<and> k0 < K) then Inl (ValueError ''vehicle_index out of range'')
                else Inr (concat (map (\<lambda>m.
                       [(\<lambda>s. s (X ia m) = s (X ib m)),
                        AddImplication (X ia m) (Z m (nat k0))]) [0..<M])))
           | _ \<Rightarrow> Inl (ValueError ''must_ride_together_in_vehicle guest ids not found'')))"

text \<open>Lines 189-200: the intervals of every vehicle do not overlap.\<close>

definition interval_mk :: "int \<Rightarrow> nat \<Rightarrow> nat \<Rightarrow> interval_var" where
  "interval_mk RT k m = NewOptionalIntervalVar (Dep m) RT (End m k) (Z m k)"

definition vehicle_constraints :: "nat \<Rightarrow> int \<Rightarrow> int \<Rightarrow> int \<Rightarrow> nat \<Rightarrow> constr list" where
  "vehicle_constraints M RT lo horizon k =
     concat (map (\<lambda>m.
        [NewIntVar lo (horizon + RT) (End m k),
         (\<lambda>s. s (End m k) = s (Dep m) + RT),
         interval_ok (interval_mk RT k m)]) [0..<M])
     @ [AddNoOverlap (map (interval_mk RT k) [0..<M])]"

text \<open>Lines 203-214: the waits and their total.\<close>

definition wait_constraints :: "Guest list \<Rightarrow> nat \<Rightarrow> int \<Rightarrow> int \<Rightarrow> nat \<Rightarrow> constr list" where
  "wait_constraints guests M lo horizon i =
     [NewIntVar lo horizon (Dep_guest i)]
     @ map (\<lambda>m. OnlyEnforceIf (\<lambda>s. s (Dep_guest i) = s (Dep m)) (Pos (X i m))) [0..<M]
     @ [NewIntVar 0 (horizon - lo) (Wait i),
        (\<lambda>s. s (Wait i) = s (Dep_guest i) - arrival_min (guests ! i))]"

definition total_wait_constraints :: "nat \<Rightarrow> constr list" where
  "total_wait_constraints n =
     [NewIntVar 0 10000000 Total_wait,
      (\<lambda>s. s Total_wait = (\<Sum>i\<leftarrow>[0..<n]. s (Wait i)))]"

definition trip_penalty :: int where
  "trip_penalty = 1"

definition build_model :: "Guest list \<Rightarrow> SolveParams \<Rightarrow> int list \<Rightarrow> error + cp_model" where
  "build_model guests params vehicle_caps =
     (let K = nat (num_cars params);
          W = max_wait_min params;
          RT = round_trip_min params;
          lo = min_a guests;
          hi = max_a guests;
          horizon = horizon_of guests params;
          n = length guests;
          M = n;
          ids = id_to_i guests;
          pairs = (case incompatible_pairs params of None \<Rightarrow> [] | Some ps \<Rightarrow> ps)
      in case together_constraints ids M (num_cars params) (must_ride_together_in_vehicle params) of
           Inl e \<Rightarrow> Inl e
         | Inr together \<Rightarrow>
             Inr \<lparr>constraints =
                    declared_vars n M K lo hi horizon
                    @ one_trip_each n M
                    @ concat (map (trip_constraints guests vehicle_caps K W lo hi horizon) [0..<M])
                    @ incompatible_constraints ids M pairs
                    @ together
                    @ concat (map (vehicle_constraints M RT lo horizon) [0..<K])
                    @ concat (map (wait_constraints guests M lo horizon) [0..<n])
                    @ total_wait_constraints n,
                  objective = (\<lambda>s. s Total_wait + trip_penalty * (\<Sum>m\<leftarrow>[0..<M]. s (Used m)))\<rparr>)"

text \<open>The model that the solver is given for a guest list and its parameters.\<close>

definition model_of :: "Guest list \<Rightarrow> SolveParams \<Rightarrow> cp_model" where
  "model_of guests params =
     (case build_model guests params (vehicle_caps_of params) of
        Inr mdl \<Rightarrow> mdl
      | Inl e \<Rightarrow> \<lparr>constraints = [], objective = (\<lambda>s. 0)\<rparr>)"

section \<open>The plan (solver.py, lines 231-263)\<close>

definition vehicle_of :: "valuation \<Rightarrow> nat \<Rightarrow> nat \<Rightarrow> nat option" where
  "vehicle_of s K m = find (\<lambda>k. s (Z m k) = 1) [0..<K]"

definition assigned :: "valuation \<Rightarrow> Guest list \<Rightarrow> nat \<Rightarrow> guest_row list" where
  "assigned s guests m =
     map (\<lambda>(i, g). \<lparr>row_guest_id = guest_id g, row_name = name g,
                    row_arrival_min = arrival_min g, wait_min = s (Wait i)\<rparr>)
       (filter (\<lambda>(i, g). s (X i m) = 1) (enumerate 0 guests))"

definition trip_out :: "valuation \<Rightarrow> Guest list \<Rightarrow> int list \<Rightarrow> nat \<Rightarrow> nat \<Rightarrow> trip" where
  "trip_out s guests vehicle_caps K m =
     (let vehicle = vehicle_of s K m;
          rows = assigned s guests m
      in \<lparr>trip_index = m,
          vehicle_index = vehicle,
          vehicle_capacity = map_option (\<lambda>k. vehicle_caps ! k) vehicle,
          departure_min = s (Dep m),
          min_arrival_min = s (Min_arr m),
          max_arrival_min = s (Max_arr m),
          trip_num_guests = length rows,
          trip_guests = sort_key row_arrival_min rows\<rparr>)"

definition trips_out :: "valuation \<Rightarrow> Guest list \<Rightarrow> int list \<Rightarrow> nat \<Rightarrow> trip list" where
  "trips_out s guests vehicle_caps K =
     sort_key departure_min
       (map (trip_out s guests vehicle_caps K)
          (filter (\<lambda>m. s (Used m) \<noteq> 0) [0..<length guests]))"

section \<open>The solver entry point (solver.py, lines 31-275)\<close>

definition empty_result :: "SolveParams \<Rightarrow> solve_result" where
  "empty_result params =
     \<lparr>status = ''ok'', reason = None, res_num_guests = Some 0,
      res_num_vehicles = Some (num_cars params), res_vehicle_capacities = None,
      res_max_wait_min = None, res_round_trip_min = None,
      num_trips_used = Some 0, total_wait_min = Some 0, trips = Some []\<rparr>"

definition infeasible_result :: solve_result where
  "infeasible_result =
     \<lparr>status = ''infeasible'',
      reason = Some ''No schedule satisfies constraints (max_wait too small, too few vehicles, RT too large, or constraints too strict).'',
      res_num_guests = None, res_num_vehicles = None, res_vehicle_capacities = None,
      res_max_wait_min = None, res_round_trip_min = None,
      num_trips_used = None, total_wait_min = None, trips = None\<rparr>"

definition ok_result :: "valuation \<Rightarrow> Guest list \<Rightarrow> SolveParams \<Rightarrow> int list \<Rightarrow> solve_result" where
  "ok_result s guests params vehicle_caps =
     (let plan = trips_out s guests vehicle_caps (nat (num_cars params))
      in \<lparr>status = ''ok'', reason = None, res_num_guests = Some (length guests),
          res_num_vehicles = Some (num_cars params),
          res_vehicle_capacities = Some vehicle_caps,
          res_max_wait_min = Some (max_wait_min params),
          res_round_trip_min = Some (round_trip_min params),
          num_trips_used = Some (length plan),
          total_wait_min = Some (s Total_wait),
          trips = Some plan\<rparr>)"

text \<open>
  \<open>max(vehicle_caps)\<close> at line 64 raises a \<open>ValueError\<close> on an empty list, which is
  what the capacities are when \<open>num_cars\<close> is zero.
\<close>

definition solve_pickups_multitrip ::
  "cp_solver \<Rightarrow> Guest list \<Rightarrow> SolveParams \<Rightarrow> error + solve_result" where
  "solve_pickups_multitrip solver guests params =
     (if guests = [] then Inr (empty_result params)
      else
        let vehicle_caps = vehicle_caps_of params in
        if \<exists>c \<in> set vehicle_caps. c < 1 then Inl (ValueError ''vehicle_capacities must be >= 1'')
        else if vehicle_caps = [] then Inl (ValueError ''max() arg is an empty sequence'')
        else
          (case build_model guests params vehicle_caps of
             Inl e \<Rightarrow> Inl e
           | Inr model \<Rightarrow>
               (case solver model of
                  (st, s) \<Rightarrow>
                    if st \<notin> {OPTIMAL, FEASIBLE} then Inr infeasible_result
                    else Inr (ok_result s guests params vehicle_caps))))"

section \<open>When the solve returns\<close>

text \<open>
  The integers handed to the optimisation library are 64-bit: the bounds of the variables,
  the round trip duration, the maximal wait and the capacities.
\<close>

definition int64 :: "int \<Rightarrow> bool" where
  "int64 v = (- (2 ^ 63) \<le> v \<and> v < 2 ^ 63)"

definition library_ints_ok :: "Guest list \<Rightarrow> SolveParams \<Rightarrow> bool" where
  "library_ints_ok guests params =
     (let lo = min_a guests;
          hi = max_a guests;
          horizon = horizon_of guests params;
          RT = round_trip_min params;
          W = max_wait_min params
      in list_all int64
           ([lo, hi, horizon, BIG_POS horizon, horizon + RT, horizon - lo, RT, W]
            @ vehicle_caps_of params))"

text \<open>The checks of lines 176-181 on the grouping rule.\<close>

definition rule_ok :: "Guest list \<Rightarrow> SolveParams \<Rightarrow> bool" where
  "rule_ok guests params =
     (case must_ride_together_in_vehicle params of
        None \<Rightarrow> True
      | Some r \<Rightarrow>
          guest_id_a r \<in> set (map guest_id guests) \<and> guest_id_b r \<in> set (map guest_id guests)
          \<and> 0 \<le> rule_vehicle_index r \<and> rule_vehicle_index r < num_cars params)"

text \<open>
  The instance is constructed when the guest list is empty, or when the checks of lines
  61-64 and 176-181 pass and the library accepts the integers of the model.
\<close>

definition construction_succeeds :: "Guest list \<Rightarrow> SolveParams \<Rightarrow> bool" where
  "construction_succeeds guests params =
     (guests = []
      \<or> (list_all (\<lambda>c. 1 \<le> c) (vehicle_caps_of params) \<and> vehicle_caps_of params \<noteq> []
         \<and> rule_ok guests params \<and> library_ints_ok guests params))"

text \<open>The objective as the result shows it: total wait plus the penalty for each trip.\<close>

definition result_objective :: "solve_result \<Rightarrow> int option" where
  "result_objective r =
     (case (total_wait_min r, num_trips_used r) of
        (Some w, Some k) \<Rightarrow> Some (w + trip_penalty * int k)
      | _ \<Rightarrow> None)"

section \<open>The HTTP endpoint (main.py, lines 19-50)\<close>

record GuestIn =
  in_guest_id :: string
  in_name :: string
  in_arrival_min :: int

record SolveRequest =
  req_guests :: "GuestIn list"
  req_num_cars :: int
  req_capacity_per_car :: int
  req_max_wait_min :: int
  req_round_trip_min :: "int option"
  req_vehicle_capacities :: "int list option"
  req_incompatible_pairs :: "(string \<times> string) list option"
  req_must_ride_together_in_vehicle :: "together_rule option"
  req_time_horizon_min :: "int option"

text \<open>Python's \<open>v or 240\<close> on an optional integer: \<open>None\<close> and \<open>0\<close> are falsy.\<close>

definition or_240 :: "int option \<Rightarrow> int" where
  "or_240 v = (case v of None \<Rightarrow> 240 | Some r \<Rightarrow> if r = 0 then 240 else r)"

definition request_guests :: "SolveRequest \<Rightarrow> Guest list" where
  "request_guests req =
     map (\<lambda>g. \<lparr>guest_id = in_guest_id g, name = in_name g, arrival_min = in_arrival_min g\<rparr>)
       (req_guests req)"

definition request_params :: "SolveRequest \<Rightarrow> SolveParams" where
  "request_params req =
     \<lparr>num_cars = req_num_cars req,
      capacity_per_car = req_capacity_per_car req,
      max_wait_min = req_max_wait_min req,
      time_horizon_min = req_time_horizon_min req,
      round_trip_min = or_240 (req_round_trip_min req),
      vehicle_capacities = req_vehicle_capacities req,
      incompatible_pairs = req_incompatible_pairs req,
      must_ride_together_in_vehicle = req_must_ride_together_in_vehicle req\<rparr>"

definition solve :: "cp_solver \<Rightarrow> SolveRequest \<Rightarrow> error + solve_result" where
  "solve solver req = solve_pickups_multitrip solver (request_guests req) (request_params req)"

section \<open>Example instances\<close>

text \<open>
  A solver that answers with a fixed solution when that solution satisfies the model, and
  one that runs out of time on every model.
\<close>

definition replay_solver :: "valuation \<Rightarrow> cp_solver" where
  "replay_solver s mdl = (if satisfies s mdl then (FEASIBLE, s) else (UNKNOWN, s))"

definition idle_solver :: cp_solver where
  "idle_solver mdl = (UNKNOWN, (\<lambda>v. 0))"

text \<open>
  Three guests and one vehicle of capacity two: Ann and Bob leave together at minute 5,
  Cy leaves at minute 100 on the same vehicle, which is back by then.
\<close>

definition guests3 :: "Guest list" where
  "guests3 = [\<lparr>guest_id = ''a'', name = ''Ann'', arrival_min = 0\<rparr>,
              \<lparr>guest_id = ''b'', name = ''Bob'', arrival_min = 5\<rparr>,
              \<lparr>guest_id = ''c'', name = ''Cy'', arrival_min = 100\<rparr>]"

definition params3 :: SolveParams where
  "params3 = \<lparr>num_cars = 1, capacity_per_car = 2, max_wait_min = 15, time_horizon_min = None,
     round_trip_min = 60, vehicle_capacities = None, incompatible_pairs = None,
     must_ride_together_in_vehicle = None\<rparr>"

fun plan3 :: valuation where
  "plan3 (X i m) = (if (i = 0 \<and> m = 0) \<or> (i = 1 \<and> m = 0) \<or> (i = 2 \<and> m = 1) then 1 else 0)"
| "plan3 (Used m) = (if m = 0 \<or> m = 1 then 1 else 0)"
| "plan3 (Z m k) = (if (m = 0 \<or> m = 1) \<and> k = 0 then 1 else 0)"
| "plan3 (Dep m) = (if m = 0 then 5 else if m = 1 then 100 else 0)"
| "plan3 (Min_arr m) = (if m = 0 then 0 else if m = 1 then 100 else 0)"
| "plan3 (Max_arr m) = (if m = 0 then 5 else if m = 1 then 100 else 0)"
| "plan3 (Vmin i m) = (if i = 0 \<and> m = 0 then 0 else if i = 1 \<and> m = 0 then 5
                        else if i = 2 \<and> m = 1 then 100 else 10175)"
| "plan3 (Vmax i m) = (if i = 0 \<and> m = 0 then 0 else if i = 1 \<and> m = 0 then 5
                        else if i = 2 \<and> m = 1 then 100 else - 10000)"
| "plan3 (Dummy_min m) = (if m = 0 \<or> m = 1 then 10175 else 0)"
| "plan3 (Dummy_max m) = (if m = 0 \<or> m = 1 then - 10000 else 0)"
| "plan3 (End m k) = (if m = 0 then 65 else if m = 1 then 160 else 60)"
| "plan3 (Dep_guest i) = (if i = 0 \<or> i = 1 then 5 else 100)"
| "plan3 (Wait i) = (if i = 0 then 5 else 0)"
| "plan3 Total_wait = 5"

definition trip3_first :: trip where
  "trip3_first =
     \<lparr>trip_index = 0, vehicle_index = Some 0, vehicle_capacity = Some 2, departure_min = 5,
      min_arrival_min = 0, max_arrival_min = 5, trip_num_guests = 2,
      trip_guests =
        [\<lparr>row_guest_id = ''a'', row_name = ''Ann'', row_arrival_min = 0, wait_min = 5\<rparr>,
         \<lparr>row_guest_id = ''b'', row_name = ''Bob'', row_arrival_min = 5, wait_min = 0\<rparr>]\<rparr>"

definition trip3_second :: trip where
  "trip3_second =
     \<lparr>trip_index = 1, vehicle_index = Some 0, vehicle_capacity = Some 2, departure_min = 100,
      min_arrival_min = 100, max_arrival_min = 100, trip_num_guests = 1,
      trip_guests =
        [\<lparr>row_guest_id = ''c'', row_name = ''Cy'', row_arrival_min = 100, wait_min = 0\<rparr>]\<rparr>"

definition result3 :: solve_result where
  "result3 =
     \<lparr>status = ''ok'', reason = None, res_num_guests = Some 3, res_num_vehicles = Some 1,
      res_vehicle_capacities = Some [2], res_max_wait_min = Some 15,
      res_round_trip_min = Some 60, num_trips_used = Some 2, total_wait_min = Some 5,
      trips = Some [trip3_first, trip3_second]\<rparr>"

text \<open>
  Parameters whose grouping rule names two guests that no list has and a vehicle that the
  fleet does not have, and parameters with a capacity of zero.
\<close>

definition stray_rule_params :: SolveParams where
  "stray_rule_params = params3\<lparr>must_ride_together_in_vehicle :=
     Some \<lparr>guest_id_a = ''x'', guest_id_b = ''y'', rule_vehicle_index = 7\<rparr>\<rparr>"

definition zero_cap_params :: SolveParams where
  "zero_cap_params = stray_rule_params\<lparr>vehicle_capacities := Some [0, 3]\<rparr>"

definition padded_params :: SolveParams where
  "padded_params = params3\<lparr>num_cars := 3, vehicle_capacities := Some [4, 0]\<rparr>"

definition request0 :: SolveRequest where
  "request0 =
     \<lparr>req_guests = [\<lparr>in_guest_id = ''a'', in_name = ''Ann'', in_arrival_min = 0\<rparr>],
      req_num_cars = 1, req_capacity_per_car = 2, req_max_wait_min = 15,
      req_round_trip_min = Some 0, req_vehicle_capacities = None,
      req_incompatible_pairs = None, req_must_ride_together_in_vehicle = None,
      req_time_horizon_min = None\<rparr>"

text \<open>
  Two guests, Ann at minute 0 and Bob at minute 1, with two vehicles and a maximal wait of
  one minute. Riding together costs one minute of wait and one trip; riding apart costs no
  wait and two trips. The first solution is for the order Ann, Bob; the second for the
  order Bob, Ann.
\<close>

definition guests_ab :: "Guest list" where
  "guests_ab = [\<lparr>guest_id = ''a'', name = ''Ann'', arrival_min = 0\<rparr>,
                \<lparr>guest_id = ''b'', name = ''Bob'', arrival_min = 1\<rparr>]"

definition guests_ba :: "Guest list" where
  "guests_ba = [\<lparr>guest_id = ''b'', name = ''Bob'', arrival_min = 1\<rparr>,
                \<lparr>guest_id = ''a'', name = ''Ann'', arrival_min = 0\<rparr>]"

definition params2 :: SolveParams where
  "params2 = \<lparr>num_cars = 2, capacity_per_car = 2, max_wait_min = 1, time_horizon_min = None,
     round_trip_min = 60, vehicle_capacities = None, incompatible_pairs = None,
     must_ride_together_in_vehicle = None\<rparr>"

fun plan_together :: valuation where
  "plan_together (X i m) = (if m = 0 then 1 else 0)"
| "plan_together (Used m) = (if m = 0 then 1 else 0)"
| "plan_together (Z m k) = (if m = 0 \<and> k = 0 then 1 else 0)"
| "plan_together (Dep m) = (if m = 0 then 1 else 0)"
| "plan_together (Min_arr m) = 0"
| "plan_together (Max_arr m) = (if m = 0 then 1 else 0)"
| "plan_together (Vmin i m) = (if m = 0 then (if i = 0 then 0 else 1) else 10062)"
| "plan_together (Vmax i m) = (if m = 0 then (if i = 0 then 0 else 1) else - 10000)"
| "plan_together (Dummy_min m) = (if m = 0 then 10062 else 0)"
| "plan_together (Dummy_max m) = (if m = 0 then - 10000 else 0)"
| "plan_together (End m k) = (if m = 0 then 61 else 60)"
| "plan_together (Dep_guest i) = 1"
| "plan_together (Wait i) = (if i = 0 then 1 else 0)"
| "plan_together Total_wait = 1"

fun plan_apart :: valuation where
  "plan_apart (X i m) = (if i = m then 1 else 0)"
| "plan_apart (Used m) = 1"
| "plan_apart (Z m k) = (if m = k then 1 else 0)"
| "plan_apart (Dep m) = (if m = 0 then 1 else 0)"
| "plan_apart (Min_arr m) = (if m = 0 then 1 else 0)"
| "plan_apart (Max_arr m) = (if m = 0 then 1 else 0)"
| "plan_apart (Vmin i m) = (if i = m then (if m = 0 then 1 else 0) else 10062)"
| "plan_apart (Vmax i m) = (if i = m then (if m = 0 then 1 else 0) else - 10000)"
| "plan_apart (Dummy_min m) = 10062"
| "plan_apart (Dummy_max m) = - 10000"
| "plan_apart (End m k) = (if m = 0 then 61 else 60)"
| "plan_apart (Dep_guest i) = (if i = 0 then 1 else 0)"
| "plan_apart (Wait i) = 0"
| "plan_apart Total_wait = 0"

text \<open>A solver that answers with the first of the two solutions that fits the model.\<close>

definition tie_solver :: cp_solver where
  "tie_solver mdl =
     (if satisfies plan_together mdl then (FEASIBLE, plan_together)
      else if satisfies plan_apart mdl then (FEASIBLE, plan_apart)
      else (UNKNOWN, (\<lambda>v. 0)))"

definition row_a :: "int \<Rightarrow> guest_row" where
  "row_a w = \<lparr>row_guest_id = ''a'', row_name = ''Ann'', row_arrival_min = 0, wait_min = w\<rparr>"

definition row_b :: "int \<Rightarrow> guest_row" where
  "row_b w = \<lparr>row_guest_id = ''b'', row_name = ''Bob'', row_arrival_min = 1, wait_min = w\<rparr>"

definition result_ab :: solve_result where
  "result_ab =
     \<lparr>status = ''ok'', reason = None, res_num_guests = Some 2, res_num_vehicles = Some 2,
      res_vehicle_capacities = Some [2, 2], res_max_wait_min = Some 1,
      res_round_trip_min = Some 60, num_trips_used = Some 1, total_wait_min = Some 1,
      trips = Some
        [\<lparr>trip_index = 0, vehicle_index = Some 0, vehicle_capacity = Some 2, departure_min = 1,
          min_arrival_min = 0, max_arrival_min = 1, trip_num_guests = 2,
          trip_guests = [row_a 1, row_b 0]\<rparr>]\<rparr>"

definition result_ba :: solve_result where
  "result_ba =
     \<lparr>status = ''ok'', reason = None, res_num_guests = Some 2, res_num_vehicles = Some 2,
      res_vehicle_capacities = Some [2, 2], res_max_wait_min = Some 1,
      res_round_trip_min = Some 60, num_trips_used = Some 2, total_wait_min = Some 0,
      trips = Some
        [\<lparr>trip_index = 1, vehicle_index = Some 1, vehicle_capacity = Some 2, departure_min = 0,
          min_arrival_min = 0, max_arrival_min = 0, trip_num_guests = 1,
          trip_guests = [row_a 0]\<rparr>,
         \<lparr>trip_index = 0, vehicle_index = Some 0, vehicle_capacity = Some 2, departure_min = 1,
          min_arrival_min = 1, max_arrival_min = 1, trip_num_guests = 1,
          trip_guests = [row_b 0]\<rparr>]\<rparr>"

section \<open>Reordering the guest list\<close>

text \<open>
  A reordering of a list of length \<open>n\<close> is given by the list \<open>p\<close> of the old positions
  in their new order. A solution for the old order becomes one for the new order by
  reading every variable of guest \<open>j\<close> at the old position \<open>p ! j\<close>. Two trips are the
  same when they agree on every key and carry the same guest rows.
\<close>

definition is_perm :: "nat list \<Rightarrow> nat \<Rightarrow> bool" where
  "is_perm p n = (distinct p \<and> set p = {..<n})"

definition reorder :: "nat list \<Rightarrow> 'a list \<Rightarrow> 'a list" where
  "reorder p xs = map (\<lambda>i. xs ! i) p"

fun rename :: "nat list \<Rightarrow> var \<Rightarrow> var" where
  "rename p (X j m) = X (p ! j) m"
| "rename p (Vmin j m) = Vmin (p ! j) m"
| "rename p (Vmax j m) = Vmax (p ! j) m"
| "rename p (Dep_guest j) = Dep_guest (p ! j)"
| "rename p (Wait j) = Wait (p ! j)"
| "rename p v = v"

definition same_trip :: "trip \<Rightarrow> trip \<Rightarrow> bool" where
  "same_trip t t' =
     (trip_index t' = trip_index t \<and> vehicle_index t' = vehicle_index t
      \<and> vehicle_capacity t' = vehicle_capacity t \<and> departure_min t' = departure_min t
      \<and> min_arrival_min t' = min_arrival_min t \<and> max_arrival_min t' = max_arrival_min t
      \<and> trip_num_guests t' = trip_num_guests t
      \<and> set (trip_guests t') = set (trip_guests t))"

section \<open>Solutions of the model\<close>

lemma satisfies_iff: "satisfies s mdl \<longleftrightarrow> (\<forall>c \<in> set (constraints mdl). c s)"
  by (simp add: satisfies_def list_all_iff)

lemma build_model_constraints:
  assumes "build_model guests params vehicle_caps = Inr mdl"
  shows "\<exists>together.
    together_constraints (id_to_i guests) (length guests) (num_cars params)
      (must_ride_together_in_vehicle params) = Inr together \<and>
    constraints mdl =
      declared_vars (length guests) (length guests) (nat (num_cars params)) (min_a guests)
        (max_a guests) (horizon_of guests params)
      @ one_trip_each (length guests) (length guests)
      @ concat (map (trip_constraints guests vehicle_caps (nat (num_cars params))
          (max_wait_min params) (min_a guests) (max_a guests) (horizon_of guests params))
          [0..<length guests])
      @ incompatible_constraints (id_to_i guests) (length guests)
          (case incompatible_pairs params of None \<Rightarrow> [] | Some ps \<Rightarrow> ps)
      @ together
      @ concat (map (vehicle_constraints (length guests) (round_trip_min params) (min_a guests)
          (horizon_of guests params)) [0..<nat (num_cars params)])
      @ concat (map (wait_constraints guests (length guests) (min_a guests)
          (horizon_of guests params)) [0..<length guests])
      @ total_wait_constraints (length guests)"
  using assms by (auto simp add: build_model_def Let_def split: sum.splits)

text \<open>What a solution of the model gives, one constraint family at a time.\<close>

lemma declared_vars_sat:
  assumes "build_model guests params caps = Inr mdl" "satisfies s mdl"
  shows "\<forall>c \<in> set (declared_vars (length guests) (length guests) (nat (num_cars params))
           (min_a guests) (max_a guests) (horizon_of guests params)). c s"
  using build_model_constraints[OF assms(1)] assms(2)
  by (auto simp add: satisfies_iff)

lemma one_trip_each_sat:
  assumes "build_model guests params caps = Inr mdl" "satisfies s mdl"
  shows "\<forall>c \<in> set (one_trip_each (length guests) (length guests)). c s"
  using build_model_constraints[OF assms(1)] assms(2)
  by (auto simp add: satisfies_iff)

lemma trip_constraints_sat:
  assumes "build_model guests params caps = Inr mdl" "satisfies s mdl" "m < length guests"
  shows "\<forall>c \<in> set (trip_constraints guests caps (nat (num_cars params))
          (max_wait_min params) (min_a guests) (max_a guests) (horizon_of guests params) m). c s"
  using build_model_constraints[OF assms(1)] assms(2,3)
  by (auto simp add: satisfies_iff)

lemma vehicle_constraints_sat:
  assumes "build_model guests params caps = Inr mdl" "satisfies s mdl" "k < nat (num_cars params)"
  shows "\<forall>c \<in> set (vehicle_constraints (length guests) (round_trip_min params) (min_a guests)
          (horizon_of guests params) k). c s"
  using build_model_constraints[OF assms(1)] assms(2,3)
  by (auto simp add: satisfies_iff)

lemma wait_constraints_sat:
  assumes "build_model guests params caps = Inr mdl" "satisfies s mdl" "i < length guests"
  shows "\<forall>c \<in> set (wait_constraints guests (length guests) (min_a guests)
           (horizon_of guests params) i). c s"
  using build_model_constraints[OF assms(1)] assms(2,3)
  by (auto simp add: satisfies_iff)

lemma total_wait_constraints_sat:
  assumes "build_model guests params caps = Inr mdl" "satisfies s mdl"
  shows "\<forall>c \<in> set (total_wait_constraints (length guests)). c s"
  using build_model_constraints[OF assms(1)] assms(2)
  by (auto simp add: satisfies_iff)

lemma sat_x_bool:
  assumes "build_model guests params caps = Inr mdl" "satisfies s mdl"
    "i < length guests" "m < length guests"
  shows "0 \<le> s (X i m) \<and> s (X i m) \<le> 1"
  using declared_vars_sat[OF assms(1,2)] assms(3,4)
  by (simp add: declared_vars_def NewBoolVar_def ball_Un)

lemma sat_one_trip:
  assumes "build_model guests params caps = Inr mdl" "satisfies s mdl" "i < length guests"
  shows "(\<Sum>m\<leftarrow>[0..<length guests]. s (X i m)) = 1"
  using one_trip_each_sat[OF assms(1,2)] assms(3)
  by (simp add: one_trip_each_def)

lemma sat_x_used:
  assumes "build_model guests params caps = Inr mdl" "satisfies s mdl"
    "i < length guests" "m < length guests" "s (X i m) = 1"
  shows "s (Used m) = 1"
  using trip_constraints_sat[OF assms(1,2,4)] assms(3,5)
  by (auto simp add: trip_constraints_def Let_def ball_Un AddImplication_def)

lemma sat_dep:
  assumes "build_model guests params caps = Inr mdl" "satisfies s mdl" "m < length guests"
  shows "s (Dep m) = s (Max_arr m)"
  using trip_constraints_sat[OF assms]
  by (simp add: trip_constraints_def Let_def ball_Un)

lemma sat_wait:
  assumes "build_model guests params caps = Inr mdl" "satisfies s mdl" "i < length guests"
  shows "s (Wait i) = s (Dep_guest i) - arrival_min (guests ! i)"
  using wait_constraints_sat[OF assms]
  by (simp add: wait_constraints_def ball_Un)

lemma sat_dep_guest:
  assumes "build_model guests params caps = Inr mdl" "satisfies s mdl"
    "i < length guests" "m < length guests" "s (X i m) = 1"
  shows "s (Dep_guest i) = s (Dep m)"
  using wait_constraints_sat[OF assms(1,2,3)] assms(4,5)
  by (simp add: wait_constraints_def ball_Un OnlyEnforceIf_def)

lemma sat_total_wait:
  assumes "build_model guests params caps = Inr mdl" "satisfies s mdl"
  shows "s Total_wait = (\<Sum>i\<leftarrow>[0..<length guests]. s (Wait i))"
  using total_wait_constraints_sat[OF assms]
  by (simp add: total_wait_constraints_def)

lemma sat_end:
  assumes "build_model guests params caps = Inr mdl" "satisfies s mdl"
    "k < nat (num_cars params)" "m < length guests"
  shows "s (End m k) = s (Dep m) + round_trip_min params"
  using vehicle_constraints_sat[OF assms(1,2,3)] assms(4)
  by (simp add: vehicle_constraints_def ball_Un)

lemma sat_no_overlap:
  assumes "build_model guests params caps = Inr mdl" "satisfies s mdl"
    "k < nat (num_cars params)" "m < length guests" "m' < length guests" "m \<noteq> m'"
    "s (Z m k) = 1" "s (Z m' k) = 1"
  shows "s (Dep m) + round_trip_min params \<le> s (Dep m')
       \<or> s (Dep m') + round_trip_min params \<le> s (Dep m)"
proof -
  have "AddNoOverlap (map (interval_mk (round_trip_min params) k) [0..<length guests]) s"
    using vehicle_constraints_sat[OF assms(1,2,3)]
    by (simp add: vehicle_constraints_def)
  then have "s (End m k) \<le> s (Dep m') \<or> s (End m' k) \<le> s (Dep m)"
    using assms(4-8)
    by (auto simp add: AddNoOverlap_def interval_mk_def NewOptionalIntervalVar_def)
  then show ?thesis
    using sat_end[OF assms(1,2,3,4)] sat_end[OF assms(1,2,3,5)] by simp
qed


text \<open>The shape of the plan.\<close>

lemma enumerate_nth: "enumerate 0 xs = map (\<lambda>i. (i, xs ! i)) [0..<length xs]"
proof -
  have "enumerate 0 (map ((!) xs) [0..<length xs]) = map (\<lambda>i. (i, xs ! i)) [0..<length xs]"
    by (rule enumerate_map_upt)
  then show ?thesis by (simp add: map_nth)
qed

lemma assigned_eq:
  "assigned s guests m =
     map (\<lambda>i. \<lparr>row_guest_id = guest_id (guests ! i), row_name = name (guests ! i),
               row_arrival_min = arrival_min (guests ! i), wait_min = s (Wait i)\<rparr>)
       (filter (\<lambda>i. s (X i m) = 1) [0..<length guests])"
  by (simp add: assigned_def enumerate_nth filter_map comp_def)

lemma trips_out_set:
  "t \<in> set (trips_out s guests caps K) \<Longrightarrow>
     \<exists>m < length guests. s (Used m) \<noteq> 0 \<and> t = trip_out s guests caps K m"
  by (auto simp add: trips_out_def)

lemma trip_index_trip_out [simp]: "trip_index (trip_out s guests caps K m) = m"
  by (simp add: trip_out_def Let_def)

lemma trips_out_distinct: "distinct (map trip_index (trips_out s guests caps K))"
proof -
  let ?ms = "filter (\<lambda>m. s (Used m) \<noteq> 0) [0..<length guests]"
  have "map trip_index (map (trip_out s guests caps K) ?ms) = ?ms"
    by (simp add: comp_def)
  then have "distinct (map trip_index (map (trip_out s guests caps K) ?ms))"
    by simp
  then show ?thesis
    unfolding trips_out_def by (simp only: distinct_map distinct_sort set_sort)
qed

lemma vehicle_of_Some:
  "vehicle_of s K m = Some k \<Longrightarrow> k < K \<and> s (Z m k) = 1"
  by (auto simp add: vehicle_of_def find_Some_iff)

lemma sum_list_insort_key:
  fixes f :: "'a \<Rightarrow> int"
  shows "sum_list (map f (insort_key g x xs)) = f x + sum_list (map f xs)"
  by (induction xs) auto

lemma sum_list_sort_key:
  fixes f :: "'a \<Rightarrow> int"
  shows "sum_list (map f (sort_key g xs)) = sum_list (map f xs)"
  by (induction xs) (auto simp add: sum_list_insort_key)

section \<open>The result of a solve\<close>

lemma solve_Inr_cases:
  assumes "solve_pickups_multitrip solver guests params = Inr r"
  shows "(guests = [] \<and> r = empty_result params)
       \<or> (guests \<noteq> [] \<and> r = infeasible_result)
       \<or> (guests \<noteq> [] \<and> (\<exists>mdl s.
             build_model guests params (vehicle_caps_of params) = Inr mdl
           \<and> fst (solver mdl) \<in> {OPTIMAL, FEASIBLE} \<and> snd (solver mdl) = s
           \<and> r = ok_result s guests params (vehicle_caps_of params)))"
  using assms
  by (auto simp add: solve_pickups_multitrip_def Let_def split: if_splits sum.splits prod.splits)

lemma solve_ok_plan:
  assumes "solver_contract solver"
    and "solve_pickups_multitrip solver guests params = Inr r"
    and "status r = ''ok''" and "guests \<noteq> []"
  shows "\<exists>mdl s. build_model guests params (vehicle_caps_of params) = Inr mdl
           \<and> satisfies s mdl
           \<and> r = ok_result s guests params (vehicle_caps_of params)"
  using solve_Inr_cases[OF assms(2)] assms(1,3,4)
  by (auto simp add: infeasible_result_def solver_contract_def)

lemma wait_sum_trip:
  assumes "build_model guests params caps = Inr mdl" "satisfies s mdl" "m < length guests"
  shows "sum_list (map wait_min (trip_guests (trip_out s guests caps K m)))
       = (\<Sum>i\<leftarrow>[0..<length guests]. s (Wait i) * s (X i m))"
proof -
  have "sum_list (map wait_min (trip_guests (trip_out s guests caps K m)))
      = sum_list (map wait_min (assigned s guests m))"
    by (simp add: trip_out_def Let_def sum_list_sort_key)
  also have "\<dots> = (\<Sum>i\<leftarrow>filter (\<lambda>i. s (X i m) = 1) [0..<length guests]. s (Wait i))"
    by (simp add: assigned_eq comp_def)
  also have "\<dots> = (\<Sum>i\<leftarrow>[0..<length guests]. if s (X i m) = 1 then s (Wait i) else 0)"
    by (simp add: sum_list_map_filter')
  also have "\<dots> = (\<Sum>i\<leftarrow>[0..<length guests]. s (Wait i) * s (X i m))"
  proof (rule arg_cong[where f = sum_list], rule map_cong[OF refl])
    fix i assume "i \<in> set [0..<length guests]"
    then have "i < length guests" by simp
    from sat_x_bool[OF assms(1,2) this assms(3)]
    have "s (X i m) = 0 \<or> s (X i m) = 1" by arith
    then show "(if s (X i m) = 1 then s (Wait i) else 0) = s (Wait i) * s (X i m)"
      by auto
  qed
  finally show ?thesis .
qed

lemma unused_trip_empty:
  assumes "build_model guests params caps = Inr mdl" "satisfies s mdl" "m < length guests"
    "s (Used m) = 0"
  shows "(\<Sum>i\<leftarrow>[0..<length guests]. s (Wait i) * s (X i m)) = 0"
proof -
  have "s (Wait i) * s (X i m) = 0" if "i \<in> set [0..<length guests]" for i
  proof -
    from that have i: "i < length guests" by simp
    from sat_x_bool[OF assms(1,2) i assms(3)]
    have "s (X i m) = 0 \<or> s (X i m) = 1" by arith
    moreover have "s (X i m) \<noteq> 1"
      using sat_x_used[OF assms(1,2) i assms(3)] assms(4) by auto
    ultimately show ?thesis by simp
  qed
  then have "(\<Sum>i = 0..<length guests. s (Wait i) * s (X i m)) = 0"
    by (intro sum.neutral) simp
  then show ?thesis
    by (simp add: interv_sum_list_conv_sum_set_nat)
qed

lemma sum_list_concat_int:
  fixes xss :: "int list list"
  shows "sum_list (concat xss) = sum_list (map sum_list xss)"
  by (induction xss) auto

lemma wait_sum_plan:
  assumes "build_model guests params caps = Inr mdl" "satisfies s mdl"
  shows "sum_list (map wait_min (concat (map trip_guests (trips_out s guests caps K))))
       = s Total_wait"
proof -
  let ?n = "length guests"
  let ?G = "\<lambda>m. (\<Sum>i\<leftarrow>[0..<?n]. s (Wait i) * s (X i m))"
  let ?ms = "filter (\<lambda>m. s (Used m) \<noteq> 0) [0..<?n]"
  have "sum_list (map wait_min (concat (map trip_guests (trips_out s guests caps K))))
      = (\<Sum>t\<leftarrow>trips_out s guests caps K. sum_list (map wait_min (trip_guests t)))"
    by (simp add: map_concat sum_list_concat_int comp_def)
  also have "\<dots> = (\<Sum>m\<leftarrow>?ms. sum_list (map wait_min (trip_guests (trip_out s guests caps K m))))"
    by (simp add: trips_out_def sum_list_sort_key comp_def)
  also have "\<dots> = (\<Sum>m\<leftarrow>?ms. ?G m)"
    by (rule arg_cong[where f = sum_list], rule map_cong[OF refl])
       (simp add: wait_sum_trip[OF assms])
  also have "\<dots> = (\<Sum>m\<leftarrow>[0..<?n]. if s (Used m) \<noteq> 0 then ?G m else 0)"
    by (simp add: sum_list_map_filter')
  also have "\<dots> = (\<Sum>m\<leftarrow>[0..<?n]. ?G m)"
    by (rule arg_cong[where f = sum_list], rule map_cong[OF refl])
       (simp add: unused_trip_empty[OF assms])
  also have "\<dots> = (\<Sum>m = 0..<?n. \<Sum>i = 0..<?n. s (Wait i) * s (X i m))"
    by (simp add: interv_sum_list_conv_sum_set_nat)
  also have "\<dots> = (\<Sum>i = 0..<?n. \<Sum>m = 0..<?n. s (Wait i) * s (X i m))"
    by (rule sum.swap)
  also have "\<dots> = (\<Sum>i = 0..<?n. s (Wait i) * (\<Sum>m\<leftarrow>[0..<?n]. s (X i m)))"
    by (simp add: sum_distrib_left interv_sum_list_conv_sum_set_nat)
  also have "\<dots> = (\<Sum>i = 0..<?n. s (Wait i))"
    by (rule sum.cong[OF refl]) (simp add: sat_one_trip[OF assms])
  also have "\<dots> = s Total_wait"
    by (simp add: sat_total_wait[OF assms] interv_sum_list_conv_sum_set_nat)
  finally show ?thesis .
qed

section \<open>The example instance, evaluated\<close>

lemma replay_solver_contract: "solver_contract (replay_solver s)"
  by (simp add: solver_contract_def replay_solver_def)

lemma caps3: "vehicle_caps_of params3 = [2]"
  by (simp add: vehicle_caps_of_def params3_def)

lemmas model_defs = build_model_def declared_vars_def one_trip_each_def trip_constraints_def
  masked_arrivals_def trip_load_def incompatible_constraints_def together_constraints_def
  vehicle_constraints_def interval_mk_def wait_constraints_def total_wait_constraints_def
  NewBoolVar_def NewIntVar_def OnlyEnforceIf_def AddImplication_def AddMinEquality_def
  AddMaxEquality_def NewOptionalIntervalVar_def interval_ok_def AddNoOverlap_def
  BIG_NEG_def BIG_POS_def min_a_def max_a_def arrivals_def horizon_of_def id_to_i_def

lemma plan3_sat: "\<exists>m. build_model guests3 params3 [2] = Inr m \<and> satisfies plan3 m"
  by (simp add: satisfies_def model_defs guests3_def params3_def Let_def lessThan_Suc)

lemma ok_result3: "ok_result plan3 guests3 params3 [2] = result3"
  by (simp add: ok_result_def trips_out_def trip_out_def assigned_def vehicle_of_def
      guests3_def params3_def result3_def trip3_first_def trip3_second_def Let_def)

lemma solve3: "solve_pickups_multitrip (replay_solver plan3) guests3 params3 = Inr result3"
  using plan3_sat
  by (auto simp add: solve_pickups_multitrip_def caps3 replay_solver_def ok_result3)
     (simp add: guests3_def)


section \<open>Guest ids, incompatible pairs and the grouping rule\<close>

lemma fold_update_dom:
  "dom (fold (\<lambda>(i, g) d. d(guest_id g \<mapsto> i)) xs d0) = dom d0 \<union> (guest_id \<circ> snd) ` set xs"
  by (induction xs arbitrary: d0) (auto split: prod.splits)

lemma id_to_i_dom: "dom (id_to_i guests) = guest_id ` set guests"
proof -
  have "snd ` set (enumerate 0 guests) = set guests"
    by (metis map_snd_enumerate set_map)
  then have "(guest_id \<circ> snd) ` set (enumerate 0 guests) = guest_id ` set guests"
    by (simp only: image_comp [symmetric])
  then show ?thesis
    by (simp only: id_to_i_def fold_update_dom dom_empty Un_empty_left)
qed

lemma id_to_i_None: "id_to_i guests gid = None \<longleftrightarrow> gid \<notin> guest_id ` set guests"
  by (metis domIff id_to_i_dom)

lemma incompatible_skip:
  assumes "ids gid1 = None \<or> ids gid2 = None"
  shows "incompatible_constraints ids M (ps @ (gid1, gid2) # qs)
       = incompatible_constraints ids M (ps @ qs)"
  using assms by (auto simp add: incompatible_constraints_def split: option.splits)

lemma vehicle_caps_of_pairs [simp]:
  "vehicle_caps_of (params\<lparr>incompatible_pairs := v\<rparr>) = vehicle_caps_of params"
  by (simp add: vehicle_caps_of_def Let_def split: option.splits)

lemma horizon_of_pairs [simp]:
  "horizon_of guests (params\<lparr>incompatible_pairs := v\<rparr>) = horizon_of guests params"
  by (simp add: horizon_of_def split: option.splits)

lemma build_model_skip:
  assumes "gid1 \<notin> guest_id ` set guests \<or> gid2 \<notin> guest_id ` set guests"
  shows "build_model guests (params\<lparr>incompatible_pairs := Some (ps @ (gid1, gid2) # qs)\<rparr>) caps
       = build_model guests (params\<lparr>incompatible_pairs := Some (ps @ qs)\<rparr>) caps"
proof -
  from assms have "id_to_i guests gid1 = None \<or> id_to_i guests gid2 = None"
    by (simp add: id_to_i_None)
  then show ?thesis
    by (simp add: build_model_def Let_def incompatible_skip split: sum.splits)
qed

lemma ok_result_pairs [simp]:
  "ok_result s guests (params\<lparr>incompatible_pairs := v\<rparr>) caps = ok_result s guests params caps"
  by (simp add: ok_result_def)

lemma empty_result_pairs [simp]:
  "empty_result (params\<lparr>incompatible_pairs := v\<rparr>) = empty_result params"
  by (simp add: empty_result_def)

lemma solve_skip:
  assumes "gid1 \<notin> guest_id ` set guests \<or> gid2 \<notin> guest_id ` set guests"
  shows "solve_pickups_multitrip solver guests
           (params\<lparr>incompatible_pairs := Some (ps @ (gid1, gid2) # qs)\<rparr>)
       = solve_pickups_multitrip solver guests (params\<lparr>incompatible_pairs := Some (ps @ qs)\<rparr>)"
  by (simp add: solve_pickups_multitrip_def Let_def build_model_skip[OF assms]
      split: sum.splits prod.splits)

lemma together_stray:
  assumes "rule = Some r"
    and "ids (guest_id_a r) = None \<or> ids (guest_id_b r) = None
       \<or> rule_vehicle_index r < 0 \<or> K \<le> rule_vehicle_index r"
  shows "\<exists>e. together_constraints ids M K rule = Inl e"
  using assms by (auto simp add: together_constraints_def Let_def split: option.splits)

lemma solve_stray_rule:
  assumes "guests \<noteq> []" and "must_ride_together_in_vehicle params = Some r"
    and "guest_id_a r \<notin> guest_id ` set guests \<or> guest_id_b r \<notin> guest_id ` set guests
       \<or> rule_vehicle_index r < 0 \<or> num_cars params \<le> rule_vehicle_index r"
  shows "\<exists>e. solve_pickups_multitrip solver guests params = Inl e"
proof -
  from together_stray[OF assms(2), of "id_to_i guests" "num_cars params" "length guests"] assms(3)
  obtain e where "together_constraints (id_to_i guests) (length guests) (num_cars params)
      (must_ride_together_in_vehicle params) = Inl e"
    by (auto simp add: id_to_i_None)
  then have "build_model guests params caps = Inl e" for caps
    by (simp add: build_model_def Let_def)
  then show ?thesis
    using assms(1) by (simp add: solve_pickups_multitrip_def Let_def)
qed


lemma stray_rule_error:
  "solve_pickups_multitrip solver guests3 stray_rule_params
     = Inl (ValueError ''must_ride_together_in_vehicle guest ids not found'')"
  by (simp add: solve_pickups_multitrip_def Let_def stray_rule_params_def params3_def
      vehicle_caps_of_def guests3_def build_model_def together_constraints_def id_to_i_def)

section \<open>The capacity check\<close>

lemma py_slice_to_take: "0 \<le> k \<Longrightarrow> py_slice_to xs k = take (nat k) xs"
  by (simp add: py_slice_to_def)

lemma capacity_error_iff:
  assumes "guests \<noteq> []"
  shows "solve_pickups_multitrip solver guests params
           = Inl (ValueError ''vehicle_capacities must be >= 1'')
         \<longleftrightarrow> (\<exists>c \<in> set (vehicle_caps_of params). c < 1)"
proof
  assume "\<exists>c \<in> set (vehicle_caps_of params). c < 1"
  then show "solve_pickups_multitrip solver guests params
           = Inl (ValueError ''vehicle_capacities must be >= 1'')"
    using assms by (simp add: solve_pickups_multitrip_def Let_def)
next
  assume err: "solve_pickups_multitrip solver guests params
           = Inl (ValueError ''vehicle_capacities must be >= 1'')"
  show "\<exists>c \<in> set (vehicle_caps_of params). c < 1"
  proof (rule ccontr)
    assume no: "\<not> (\<exists>c \<in> set (vehicle_caps_of params). c < 1)"
    have "build_model guests params caps \<noteq> Inl (ValueError ''vehicle_capacities must be >= 1'')"
      for caps
      by (auto simp add: build_model_def together_constraints_def Let_def
          split: option.splits sum.splits if_splits)
    with err no assms show False
      by (auto simp add: solve_pickups_multitrip_def Let_def
          split: if_splits sum.splits prod.splits)
  qed
qed

section \<open>The tie instance, evaluated\<close>

lemma tie_solver_contract: "solver_contract tie_solver"
  by (simp add: solver_contract_def tie_solver_def)

lemma caps2: "vehicle_caps_of params2 = [2, 2]"
  by (simp add: vehicle_caps_of_def params2_def numeral_2_eq_2)

lemma together_sat_ab:
  "\<exists>m. build_model guests_ab params2 [2, 2] = Inr m \<and> satisfies plan_together m"
  by (simp add: satisfies_def model_defs guests_ab_def params2_def Let_def lessThan_Suc
      numeral_2_eq_2)

lemma together_unsat_ba:
  "\<exists>m. build_model guests_ba params2 [2, 2] = Inr m \<and> \<not> satisfies plan_together m
      \<and> satisfies plan_apart m"
  by (simp add: satisfies_def model_defs guests_ba_def params2_def Let_def lessThan_Suc
      numeral_2_eq_2)

lemma ok_result_ab: "ok_result plan_together guests_ab params2 [2, 2] = result_ab"
  by (simp add: ok_result_def trips_out_def trip_out_def assigned_def vehicle_of_def
      guests_ab_def params2_def result_ab_def row_a_def row_b_def Let_def numeral_2_eq_2)

lemma ok_result_ba: "ok_result plan_apart guests_ba params2 [2, 2] = result_ba"
  by (simp add: ok_result_def trips_out_def trip_out_def assigned_def vehicle_of_def
      guests_ba_def params2_def result_ba_def row_a_def row_b_def Let_def numeral_2_eq_2)

lemma solve_ab: "solve_pickups_multitrip tie_solver guests_ab params2 = Inr result_ab"
  using together_sat_ab
  by (auto simp add: solve_pickups_multitrip_def caps2 tie_solver_def ok_result_ab)
     (simp add: guests_ab_def)

lemma solve_ba: "solve_pickups_multitrip tie_solver guests_ba params2 = Inr result_ba"
  using together_unsat_ba
  by (auto simp add: solve_pickups_multitrip_def caps2 tie_solver_def ok_result_ba)
     (simp add: guests_ba_def)

section \<open>A solution for one order is a solution for every order\<close>

lemma is_perm_length: "is_perm p n \<Longrightarrow> length p = n"
  by (metis is_perm_def distinct_card card_lessThan)

lemma is_perm_nth: "is_perm p n \<Longrightarrow> j < n \<Longrightarrow> p ! j < n"
  using is_perm_length[of p n] by (metis is_perm_def lessThan_iff nth_mem)

lemma map_perm_nth:
  assumes "is_perm p n"
  shows "map (\<lambda>j. f (p ! j)) [0..<n] = map f p"
proof -
  have "map (\<lambda>j. f (p ! j)) [0..<length p] = map f (map ((!) p) [0..<length p])"
    by simp
  also have "\<dots> = map f p"
    by (simp only: map_nth)
  finally show ?thesis
    by (simp only: is_perm_length[OF assms])
qed

lemma sum_list_perm:
  fixes f :: "nat \<Rightarrow> int"
  assumes "is_perm p n"
  shows "(\<Sum>j\<leftarrow>[0..<n]. f (p ! j)) = (\<Sum>i\<leftarrow>[0..<n]. f i)"
proof -
  have "(\<Sum>j\<leftarrow>[0..<n]. f (p ! j)) = sum_list (map f p)"
    by (simp add: map_perm_nth[OF assms])
  also have "\<dots> = sum f (set p)"
    using assms by (simp add: is_perm_def sum_list_distinct_conv_sum_set)
  also have "\<dots> = sum f {0..<n}"
    using assms by (simp add: is_perm_def atLeast0LessThan)
  also have "\<dots> = (\<Sum>i\<leftarrow>[0..<n]. f i)"
    by (simp add: interv_sum_list_conv_sum_set_nat)
  finally show ?thesis .
qed

lemma set_map_perm:
  assumes "is_perm p n"
  shows "set (map (\<lambda>j. f (p ! j)) [0..<n]) = set (map f [0..<n])"
proof -
  have "set (map (\<lambda>j. f (p ! j)) [0..<n]) = f ` set p"
    by (simp only: map_perm_nth[OF assms] set_map)
  also have "\<dots> = set (map f [0..<n])"
    using assms by (simp add: is_perm_def atLeast0LessThan)
  finally show ?thesis .
qed

lemma py_min_Min: "xs \<noteq> [] \<Longrightarrow> py_min xs = Min (set xs)"
proof (cases xs)
  case Nil
  then show "xs \<noteq> [] \<Longrightarrow> ?thesis" by simp
next
  case (Cons a list)
  then show ?thesis by (simp only: py_min.simps Min.set_eq_fold [symmetric])
qed

lemma py_max_Max: "xs \<noteq> [] \<Longrightarrow> py_max xs = Max (set xs)"
proof (cases xs)
  case Nil
  then show "xs \<noteq> [] \<Longrightarrow> ?thesis" by simp
next
  case (Cons a list)
  then show ?thesis by (simp only: py_max.simps Max.set_eq_fold [symmetric])
qed

lemma length_reorder: "is_perm p (length xs) \<Longrightarrow> length (reorder p xs) = length xs"
  by (simp add: reorder_def is_perm_length)

lemma nth_reorder: "is_perm p (length xs) \<Longrightarrow> j < length xs \<Longrightarrow> reorder p xs ! j = xs ! (p ! j)"
  by (simp add: reorder_def is_perm_length)

lemma set_reorder: "is_perm p (length xs) \<Longrightarrow> set (reorder p xs) = set xs"
proof -
  assume a: "is_perm p (length xs)"
  have "set (reorder p xs) = (!) xs ` set p"
    by (simp add: reorder_def)
  also have "\<dots> = (!) xs ` {0..<length xs}"
    using a by (simp add: is_perm_def atLeast0LessThan)
  also have "\<dots> = set xs"
    by (metis list.set_map map_nth set_upt)
  finally show ?thesis .
qed

lemma reorder_Nil_iff: "is_perm p (length xs) \<Longrightarrow> reorder p xs = [] \<longleftrightarrow> xs = []"
  using length_reorder[of p xs] by (metis length_0_conv)

lemma min_a_reorder:
  assumes "is_perm p (length guests)" "guests \<noteq> []"
  shows "min_a (reorder p guests) = min_a guests"
proof -
  have "set (arrivals (reorder p guests)) = set (arrivals guests)"
    by (simp add: arrivals_def set_reorder[OF assms(1)])
  moreover have "arrivals (reorder p guests) \<noteq> []" "arrivals guests \<noteq> []"
    using assms by (simp_all add: arrivals_def reorder_Nil_iff)
  ultimately show ?thesis
    by (simp add: min_a_def py_min_Min)
qed

lemma max_a_reorder:
  assumes "is_perm p (length guests)" "guests \<noteq> []"
  shows "max_a (reorder p guests) = max_a guests"
proof -
  have "set (arrivals (reorder p guests)) = set (arrivals guests)"
    by (simp add: arrivals_def set_reorder[OF assms(1)])
  moreover have "arrivals (reorder p guests) \<noteq> []" "arrivals guests \<noteq> []"
    using assms by (simp_all add: arrivals_def reorder_Nil_iff)
  ultimately show ?thesis
    by (simp add: max_a_def py_max_Max)
qed

lemma horizon_of_reorder:
  assumes "is_perm p (length guests)" "guests \<noteq> []"
  shows "horizon_of (reorder p guests) params = horizon_of guests params"
  by (simp add: horizon_of_def max_a_reorder[OF assms] split: option.splits)


lemma fold_update_other:
  "gid \<notin> guest_id ` set xs \<Longrightarrow>
   fold (\<lambda>(i, g) d. d(guest_id g \<mapsto> i)) (enumerate n xs) d0 gid = d0 gid"
  by (induction xs arbitrary: n d0) auto

lemma fold_update_nth:
  "distinct (map guest_id xs) \<Longrightarrow> i < length xs \<Longrightarrow>
   fold (\<lambda>(i, g) d. d(guest_id g \<mapsto> i)) (enumerate n xs) d0 (guest_id (xs ! i)) = Some (n + i)"
proof (induction xs arbitrary: n d0 i)
  case Nil
  then show ?case by simp
next
  case (Cons x xs)
  show ?case
  proof (cases i)
    case 0
    have "guest_id x \<notin> guest_id ` set xs"
      using Cons.prems(1) by auto
    then have "fold (\<lambda>(i, g) d. d(guest_id g \<mapsto> i)) (enumerate (Suc n) xs)
        (d0(guest_id x \<mapsto> n)) (guest_id x) = (d0(guest_id x \<mapsto> n)) (guest_id x)"
      by (rule fold_update_other)
    then show ?thesis
      using 0 by (simp del: fun_upd_apply) simp
  next
    case (Suc i')
    then show ?thesis
      using Cons.IH[of i' "Suc n"] Cons.prems by simp
  qed
qed

lemma id_to_i_nth:
  "distinct (map guest_id guests) \<Longrightarrow> i < length guests \<Longrightarrow>
   id_to_i guests (guest_id (guests ! i)) = Some i"
  using fold_update_nth[of guests i 0 Map.empty] by (simp add: id_to_i_def)

lemma id_to_i_Some:
  assumes "distinct (map guest_id guests)" "id_to_i guests gid = Some i"
  shows "i < length guests \<and> guest_id (guests ! i) = gid"
proof -
  from assms(2) have "gid \<in> guest_id ` set guests"
    using id_to_i_None[of guests gid] by auto
  then obtain k where k: "k < length guests" "guest_id (guests ! k) = gid"
    by (auto simp add: in_set_conv_nth)
  with id_to_i_nth[OF assms(1) k(1)] assms(2) show ?thesis by auto
qed

lemma distinct_ids_reorder:
  assumes "is_perm p (length guests)" "distinct (map guest_id guests)"
  shows "distinct (map guest_id (reorder p guests))"
proof -
  have "inj_on (\<lambda>i. guest_id (guests ! i)) {..<length guests}"
    using assms(2) by (auto simp add: inj_on_def distinct_conv_nth)
  then have "distinct (map (\<lambda>i. guest_id (guests ! i)) p)"
    using assms(1) by (simp add: distinct_map is_perm_def)
  then show ?thesis
    by (simp add: reorder_def comp_def)
qed

lemma id_to_i_reorder:
  assumes "is_perm p (length guests)" "distinct (map guest_id guests)"
  shows "id_to_i guests gid = map_option (\<lambda>j. p ! j) (id_to_i (reorder p guests) gid)"
proof (cases "id_to_i (reorder p guests) gid")
  case None
  then have "gid \<notin> guest_id ` set guests"
    by (simp add: id_to_i_None set_reorder[OF assms(1)])
  then have "id_to_i guests gid = None"
    using id_to_i_None by blast
  then show ?thesis
    using None by simp
next
  case (Some j)
  from id_to_i_Some[OF distinct_ids_reorder[OF assms] Some]
  have j: "j < length guests" and g': "guest_id (reorder p guests ! j) = gid"
    by (simp_all add: length_reorder[OF assms(1)])
  from g' have g: "guest_id (guests ! (p ! j)) = gid"
    by (simp add: nth_reorder[OF assms(1) j])
  from id_to_i_nth[OF assms(2) is_perm_nth[OF assms(1) j]] g Some
  show ?thesis by simp
qed

lemma ball_perm:
  assumes "is_perm p n"
  shows "(\<forall>j \<in> {0..<n}. P (p ! j)) \<longleftrightarrow> (\<forall>i \<in> {0..<n}. P i)"
proof -
  have "(\<lambda>j. p ! j) ` {0..<n} = {0..<n}"
    using set_map_perm[OF assms, of "\<lambda>i. i"] by simp
  then have "(\<forall>i \<in> {0..<n}. P i) \<longleftrightarrow> (\<forall>i \<in> (\<lambda>j. p ! j) ` {0..<n}. P i)"
    by simp
  then show ?thesis by simp
qed

lemma list_all_sat: "list_all (\<lambda>c. c s) cs \<longleftrightarrow> (\<forall>c \<in> set cs. c s)"
  by (simp add: list_all_iff)

lemma declared_vars_rename:
  assumes "is_perm p n" "\<forall>c \<in> set (declared_vars n n K lo hi horizon). c s"
  shows "\<forall>c \<in> set (declared_vars n n K lo hi horizon). c (s \<circ> rename p)"
proof -
  have "\<forall>i \<in> {0..<n}. \<forall>m \<in> {0..<n}. 0 \<le> s (X i m) \<and> s (X i m) \<le> 1"
    using assms(2) by (simp add: declared_vars_def NewBoolVar_def ball_Un)
  then have "\<forall>j \<in> {0..<n}. \<forall>m \<in> {0..<n}. 0 \<le> s (X (p ! j) m) \<and> s (X (p ! j) m) \<le> 1"
    by (simp only: ball_perm[OF assms(1),
          of "\<lambda>i. \<forall>m \<in> {0..<n}. 0 \<le> s (X i m) \<and> s (X i m) \<le> 1"])
  then show ?thesis
    using assms(2) by (simp add: declared_vars_def NewBoolVar_def NewIntVar_def ball_Un)
qed

lemma one_trip_each_rename:
  assumes "is_perm p n" "\<forall>c \<in> set (one_trip_each n n). c s"
  shows "\<forall>c \<in> set (one_trip_each n n). c (s \<circ> rename p)"
  using assms(2) is_perm_nth[OF assms(1)]
  by (auto simp add: one_trip_each_def)

lemma vehicle_constraints_rename:
  "(\<forall>c \<in> set (vehicle_constraints n RT lo horizon k). c (s \<circ> rename p))
   \<longleftrightarrow> (\<forall>c \<in> set (vehicle_constraints n RT lo horizon k). c s)"
  by (simp add: vehicle_constraints_def NewIntVar_def interval_ok_def interval_mk_def
      NewOptionalIntervalVar_def AddNoOverlap_def ball_Un)

lemma wait_constraints_rename:
  assumes "is_perm p (length guests)" "j < length guests"
  shows "(\<forall>c \<in> set (wait_constraints (reorder p guests) n lo horizon j). c (s \<circ> rename p))
   \<longleftrightarrow> (\<forall>c \<in> set (wait_constraints guests n lo horizon (p ! j)). c s)"
  by (simp add: wait_constraints_def NewIntVar_def OnlyEnforceIf_def ball_Un
      nth_reorder[OF assms])

lemma total_wait_rename:
  assumes "is_perm p n" "\<forall>c \<in> set (total_wait_constraints n). c s"
  shows "\<forall>c \<in> set (total_wait_constraints n). c (s \<circ> rename p)"
  using assms(2) sum_list_perm[OF assms(1), of "\<lambda>i. s (Wait i)"]
  by (simp add: total_wait_constraints_def NewIntVar_def)

lemma trip_load_rename:
  "is_perm p n \<Longrightarrow> trip_load n m (s \<circ> rename p) = trip_load n m s"
  using sum_list_perm[of p n "\<lambda>i. s (X i m)"] by (simp add: trip_load_def)

lemma masked_arrivals_rename:
  assumes "is_perm p (length guests)" "j < length guests"
  shows "(\<forall>c \<in> set (masked_arrivals (reorder p guests) lo hi horizon m j). c (s \<circ> rename p))
   \<longleftrightarrow> (\<forall>c \<in> set (masked_arrivals guests lo hi horizon m (p ! j)). c s)"
  by (simp add: masked_arrivals_def Let_def NewIntVar_def OnlyEnforceIf_def
      nth_reorder[OF assms])

lemma min_equality_rename:
  assumes "is_perm p n"
  shows "AddMinEquality (Min_arr m) (map (\<lambda>i. Vmin i m) [0..<n] @ [Dummy_min m]) (s \<circ> rename p)
       = AddMinEquality (Min_arr m) (map (\<lambda>i. Vmin i m) [0..<n] @ [Dummy_min m]) s"
proof -
  have "set (map (\<lambda>j. s (Vmin (p ! j) m)) [0..<n]) = set (map (\<lambda>i. s (Vmin i m)) [0..<n])"
    by (rule set_map_perm[OF assms])
  then have "set (map (s \<circ> rename p) (map (\<lambda>i. Vmin i m) [0..<n] @ [Dummy_min m]))
      = set (map s (map (\<lambda>i. Vmin i m) [0..<n] @ [Dummy_min m]))"
    by (simp add: comp_def)
  then show ?thesis
    by (simp add: AddMinEquality_def py_min_Min)
qed

lemma max_equality_rename:
  assumes "is_perm p n"
  shows "AddMaxEquality (Max_arr m) (map (\<lambda>i. Vmax i m) [0..<n] @ [Dummy_max m]) (s \<circ> rename p)
       = AddMaxEquality (Max_arr m) (map (\<lambda>i. Vmax i m) [0..<n] @ [Dummy_max m]) s"
proof -
  have "set (map (\<lambda>j. s (Vmax (p ! j) m)) [0..<n]) = set (map (\<lambda>i. s (Vmax i m)) [0..<n])"
    by (rule set_map_perm[OF assms])
  then have "set (map (s \<circ> rename p) (map (\<lambda>i. Vmax i m) [0..<n] @ [Dummy_max m]))
      = set (map s (map (\<lambda>i. Vmax i m) [0..<n] @ [Dummy_max m]))"
    by (simp add: comp_def)
  then show ?thesis
    by (simp add: AddMaxEquality_def py_max_Max)
qed


lemma trip_constraints_rename:
  assumes perm: "is_perm p (length guests)"
    and sat: "\<forall>c \<in> set (trip_constraints guests caps K W lo hi horizon m). c s"
  shows "\<forall>c \<in> set (trip_constraints (reorder p guests) caps K W lo hi horizon m).
           c (s \<circ> rename p)"
proof -
  let ?n = "length guests"
  let ?s' = "s \<circ> rename p"
  have len: "length (reorder p guests) = ?n"
    by (rule length_reorder[OF perm])
  have "\<forall>i \<in> {0..<?n}. AddImplication (X i m) (Used m) s"
    using sat by (simp add: trip_constraints_def Let_def ball_Un)
  then have "\<forall>j \<in> {0..<?n}. AddImplication (X (p ! j) m) (Used m) s"
    by (simp only: ball_perm[OF perm, of "\<lambda>i. AddImplication (X i m) (Used m) s"])
  then have G1: "\<forall>c \<in> set (map (\<lambda>i. AddImplication (X i m) (Used m)) [0..<?n]). c ?s'"
    by (simp add: AddImplication_def)
  have "\<forall>i \<in> {0..<?n}. \<forall>c \<in> set (masked_arrivals guests lo hi horizon m i). c s"
    using sat by (auto simp add: trip_constraints_def Let_def ball_Un)
  then have "\<forall>j \<in> {0..<?n}. \<forall>c \<in> set (masked_arrivals guests lo hi horizon m (p ! j)). c s"
    by (simp only: ball_perm[OF perm,
          of "\<lambda>i. \<forall>c \<in> set (masked_arrivals guests lo hi horizon m i). c s"])
  then have G3: "\<forall>c \<in> set (concat (map (masked_arrivals (reorder p guests) lo hi horizon m)
      [0..<?n])). c ?s'"
    by (simp add: masked_arrivals_rename[OF perm])
  have G2: "\<forall>c \<in> set [OnlyEnforceIf (\<lambda>s. trip_load ?n m s \<ge> 1) (Pos (Used m)),
         OnlyEnforceIf (\<lambda>s. trip_load ?n m s = 0) (Not (Used m)),
         (\<lambda>s. (\<Sum>k\<leftarrow>[0..<K]. s (Z m k)) = s (Used m)),
         (\<lambda>s. trip_load ?n m s \<le> (\<Sum>k\<leftarrow>[0..<K]. caps ! k * s (Z m k)))]. c ?s'"
    using sat
    by (simp add: trip_constraints_def Let_def ball_Un OnlyEnforceIf_def
        trip_load_rename[OF perm])
  have G4: "\<forall>c \<in> set [NewIntVar lo (BIG_POS horizon) (Dummy_min m),
         NewIntVar BIG_NEG hi (Dummy_max m),
         OnlyEnforceIf (\<lambda>s. s (Dummy_min m) = lo) (Not (Used m)),
         OnlyEnforceIf (\<lambda>s. s (Dummy_min m) = BIG_POS horizon) (Pos (Used m)),
         OnlyEnforceIf (\<lambda>s. s (Dummy_max m) = lo) (Not (Used m)),
         OnlyEnforceIf (\<lambda>s. s (Dummy_max m) = BIG_NEG) (Pos (Used m)),
         AddMinEquality (Min_arr m) (map (\<lambda>i. Vmin i m) [0..<?n] @ [Dummy_min m]),
         AddMaxEquality (Max_arr m) (map (\<lambda>i. Vmax i m) [0..<?n] @ [Dummy_max m]),
         (\<lambda>s. s (Dep m) = s (Max_arr m)),
         OnlyEnforceIf (\<lambda>s. s (Max_arr m) - s (Min_arr m) \<le> W) (Pos (Used m))]. c ?s'"
    using sat
    by (simp add: trip_constraints_def Let_def ball_Un OnlyEnforceIf_def NewIntVar_def
        min_equality_rename[OF perm] max_equality_rename[OF perm])
  show ?thesis
    unfolding trip_constraints_def Let_def len set_append ball_Un
    using G1 G2 G3 G4 by blast
qed


lemma incompatible_rename:
  assumes perm: "is_perm p (length guests)" and ids: "distinct (map guest_id guests)"
  shows "(\<forall>c \<in> set (incompatible_constraints (id_to_i (reorder p guests)) n pairs).
            c (s \<circ> rename p))
     \<longleftrightarrow> (\<forall>c \<in> set (incompatible_constraints (id_to_i guests) n pairs). c s)"
proof -
  have pair: "(\<forall>c \<in> set (case (id_to_i (reorder p guests) g1, id_to_i (reorder p guests) g2) of
                   (Some i1, Some i2) \<Rightarrow> map (\<lambda>m. (\<lambda>s. s (X i1 m) + s (X i2 m) \<le> 1)) [0..<n]
                 | _ \<Rightarrow> []). c (s \<circ> rename p))
     \<longleftrightarrow> (\<forall>c \<in> set (case (id_to_i guests g1, id_to_i guests g2) of
                   (Some i1, Some i2) \<Rightarrow> map (\<lambda>m. (\<lambda>s. s (X i1 m) + s (X i2 m) \<le> 1)) [0..<n]
                 | _ \<Rightarrow> []). c s)" for g1 g2
    by (cases "id_to_i (reorder p guests) g1"; cases "id_to_i (reorder p guests) g2")
       (simp_all add: id_to_i_reorder[OF perm ids])
  have step: "incompatible_constraints f n (x # ps)
      = (case (f (fst x), f (snd x)) of
           (Some i1, Some i2) \<Rightarrow> map (\<lambda>m. (\<lambda>s. s (X i1 m) + s (X i2 m) \<le> 1)) [0..<n]
         | _ \<Rightarrow> []) @ incompatible_constraints f n ps" for f x ps
    by (simp add: incompatible_constraints_def case_prod_beta)
  show ?thesis
  proof (induction pairs)
    case Nil
    then show ?case by (simp add: incompatible_constraints_def)
  next
    case (Cons x ps)
    then show ?case
      by (simp only: step set_append ball_Un pair)
  qed
qed

lemma together_rename:
  assumes perm: "is_perm p (length guests)" and ids: "distinct (map guest_id guests)"
    and tg: "together_constraints (id_to_i guests) n K rule = Inr tg"
    and sat: "\<forall>c \<in> set tg. c s"
  shows "\<exists>tg'. together_constraints (id_to_i (reorder p guests)) n K rule = Inr tg'
           \<and> (\<forall>c \<in> set tg'. c (s \<circ> rename p))"
proof (cases rule)
  case None
  then show ?thesis by (simp add: together_constraints_def)
next
  case (Some r)
  note eq = id_to_i_reorder[OF perm ids]
  from tg Some obtain ia ib where a: "id_to_i guests (guest_id_a r) = Some ia"
    and b: "id_to_i guests (guest_id_b r) = Some ib"
    and k0: "0 \<le> rule_vehicle_index r \<and> rule_vehicle_index r < K"
    and tg_eq: "tg = concat (map (\<lambda>m.
                       [(\<lambda>s. s (X ia m) = s (X ib m)),
                        AddImplication (X ia m) (Z m (nat (rule_vehicle_index r)))]) [0..<n])"
    by (auto simp add: together_constraints_def Let_def split: option.splits if_splits)
  from a eq[of "guest_id_a r"] obtain ja where
    ja: "id_to_i (reorder p guests) (guest_id_a r) = Some ja" "p ! ja = ia"
    by (cases "id_to_i (reorder p guests) (guest_id_a r)") auto
  from b eq[of "guest_id_b r"] obtain jb where
    jb: "id_to_i (reorder p guests) (guest_id_b r) = Some jb" "p ! jb = ib"
    by (cases "id_to_i (reorder p guests) (guest_id_b r)") auto
  have "together_constraints (id_to_i (reorder p guests)) n K rule
      = Inr (concat (map (\<lambda>m.
                       [(\<lambda>s. s (X ja m) = s (X jb m)),
                        AddImplication (X ja m) (Z m (nat (rule_vehicle_index r)))]) [0..<n]))"
    using Some ja(1) jb(1) k0 by (simp add: together_constraints_def Let_def)
  moreover have "\<forall>c \<in> set (concat (map (\<lambda>m.
                       [(\<lambda>s. s (X ja m) = s (X jb m)),
                        AddImplication (X ja m) (Z m (nat (rule_vehicle_index r)))]) [0..<n])).
       c (s \<circ> rename p)"
    using sat by (simp add: tg_eq AddImplication_def ja(2) jb(2))
  ultimately show ?thesis by blast
qed

lemma build_model_objective:
  assumes "build_model guests params caps = Inr mdl"
  shows "objective mdl
       = (\<lambda>s. s Total_wait + trip_penalty * (\<Sum>m\<leftarrow>[0..<length guests]. s (Used m)))"
  using assms by (auto simp add: build_model_def Let_def split: sum.splits)

lemma model_rename:
  assumes perm: "is_perm p (length guests)" and ids: "distinct (map guest_id guests)"
    and ne: "guests \<noteq> []"
    and mdl: "build_model guests params caps = Inr mdl" and sat: "satisfies s mdl"
  shows "\<exists>mdl'. build_model (reorder p guests) params caps = Inr mdl'
           \<and> satisfies (s \<circ> rename p) mdl'
           \<and> objective mdl' (s \<circ> rename p) = objective mdl s"
proof -
  let ?n = "length guests"
  let ?g' = "reorder p guests"
  let ?s' = "s \<circ> rename p"
  let ?K = "nat (num_cars params)"
  let ?lo = "min_a guests"
  let ?hi = "max_a guests"
  let ?hz = "horizon_of guests params"
  let ?pairs = "case incompatible_pairs params of None \<Rightarrow> [] | Some ps \<Rightarrow> ps"
  from build_model_constraints[OF mdl] obtain tg where
    tg: "together_constraints (id_to_i guests) ?n (num_cars params)
           (must_ride_together_in_vehicle params) = Inr tg"
    and cs: "constraints mdl =
      declared_vars ?n ?n ?K ?lo ?hi ?hz
      @ one_trip_each ?n ?n
      @ concat (map (trip_constraints guests caps ?K (max_wait_min params) ?lo ?hi ?hz) [0..<?n])
      @ incompatible_constraints (id_to_i guests) ?n ?pairs
      @ tg
      @ concat (map (vehicle_constraints ?n (round_trip_min params) ?lo ?hz) [0..<?K])
      @ concat (map (wait_constraints guests ?n ?lo ?hz) [0..<?n])
      @ total_wait_constraints ?n"
    by blast
  have inc: "\<forall>c \<in> set (incompatible_constraints (id_to_i guests) ?n ?pairs). c s"
    and tgs: "\<forall>c \<in> set tg. c s"
    using sat by (auto simp add: satisfies_iff cs)
  from together_rename[OF perm ids tg tgs] obtain tg' where
    tg': "together_constraints (id_to_i ?g') ?n (num_cars params)
           (must_ride_together_in_vehicle params) = Inr tg'"
    and tgs': "\<forall>c \<in> set tg'. c ?s'"
    by blast
  let ?mdl' = "\<lparr>constraints =
      declared_vars ?n ?n ?K ?lo ?hi ?hz
      @ one_trip_each ?n ?n
      @ concat (map (trip_constraints ?g' caps ?K (max_wait_min params) ?lo ?hi ?hz) [0..<?n])
      @ incompatible_constraints (id_to_i ?g') ?n ?pairs
      @ tg'
      @ concat (map (vehicle_constraints ?n (round_trip_min params) ?lo ?hz) [0..<?K])
      @ concat (map (wait_constraints ?g' ?n ?lo ?hz) [0..<?n])
      @ total_wait_constraints ?n,
      objective = (\<lambda>s. s Total_wait + trip_penalty * (\<Sum>m\<leftarrow>[0..<?n]. s (Used m)))\<rparr>"
  have build': "build_model ?g' params caps = Inr ?mdl'"
    by (simp add: build_model_def Let_def tg' length_reorder[OF perm]
        min_a_reorder[OF perm ne] max_a_reorder[OF perm ne] horizon_of_reorder[OF perm ne])
  have 1: "\<forall>c \<in> set (declared_vars ?n ?n ?K ?lo ?hi ?hz). c ?s'"
    by (rule declared_vars_rename[OF perm declared_vars_sat[OF mdl sat]])
  have 2: "\<forall>c \<in> set (one_trip_each ?n ?n). c ?s'"
    by (rule one_trip_each_rename[OF perm one_trip_each_sat[OF mdl sat]])
  have 3: "\<forall>m \<in> {0..<?n}. \<forall>c \<in> set (trip_constraints ?g' caps ?K (max_wait_min params)
      ?lo ?hi ?hz m). c ?s'"
  proof
    fix m assume "m \<in> {0..<?n}"
    then have "m < ?n" by simp
    from trip_constraints_rename[OF perm trip_constraints_sat[OF mdl sat this]]
    show "\<forall>c \<in> set (trip_constraints ?g' caps ?K (max_wait_min params) ?lo ?hi ?hz m). c ?s'" .
  qed
  have 4: "\<forall>c \<in> set (incompatible_constraints (id_to_i ?g') ?n ?pairs). c ?s'"
    using inc by (simp only: incompatible_rename[OF perm ids])
  have 6: "\<forall>k \<in> {0..<?K}. \<forall>c \<in> set (vehicle_constraints ?n (round_trip_min params) ?lo ?hz k).
      c ?s'"
  proof
    fix k assume "k \<in> {0..<?K}"
    then have "k < ?K" by simp
    from vehicle_constraints_sat[OF mdl sat this]
    show "\<forall>c \<in> set (vehicle_constraints ?n (round_trip_min params) ?lo ?hz k). c ?s'"
      by (simp only: vehicle_constraints_rename)
  qed
  have "\<forall>i \<in> {0..<?n}. \<forall>c \<in> set (wait_constraints guests ?n ?lo ?hz i). c s"
  proof
    fix i assume "i \<in> {0..<?n}"
    then have "i < ?n" by simp
    from wait_constraints_sat[OF mdl sat this]
    show "\<forall>c \<in> set (wait_constraints guests ?n ?lo ?hz i). c s" .
  qed
  then have "\<forall>j \<in> {0..<?n}. \<forall>c \<in> set (wait_constraints guests ?n ?lo ?hz (p ! j)). c s"
    by (simp only: ball_perm[OF perm,
          of "\<lambda>i. \<forall>c \<in> set (wait_constraints guests ?n ?lo ?hz i). c s"])
  then have 7: "\<forall>j \<in> {0..<?n}. \<forall>c \<in> set (wait_constraints ?g' ?n ?lo ?hz j). c ?s'"
    by (simp add: wait_constraints_rename[OF perm])
  have 8: "\<forall>c \<in> set (total_wait_constraints ?n). c ?s'"
    by (rule total_wait_rename[OF perm total_wait_constraints_sat[OF mdl sat]])
  have "satisfies ?s' ?mdl'"
    unfolding satisfies_iff using 1 2 3 4 tgs' 6 7 8
    by (simp only: cp_model.simps set_append set_concat set_map set_upt ball_Un ball_UN
        ball_simps)
  moreover have "objective ?mdl' ?s' = objective mdl s"
    by (simp add: build_model_objective[OF mdl])
  ultimately show ?thesis
    using build' by blast
qed

lemma list_all2_insort_key:
  assumes "R x y" "list_all2 R xs ys" "\<And>a b. R a b \<Longrightarrow> f a = f b"
  shows "list_all2 R (insort_key f x xs) (insort_key f y ys)"
  using assms(2,1)
proof (induction rule: list_all2_induct)
  case Nil
  then show ?case by simp
next
  case (Cons a xs b ys)
  then show ?case
    using assms(3)[of x y] assms(3)[of a b] by auto
qed

lemma list_all2_sort_key:
  assumes "list_all2 R xs ys" "\<And>a b. R a b \<Longrightarrow> f a = f b"
  shows "list_all2 R (sort_key f xs) (sort_key f ys)"
  using assms(1)
proof (induction rule: list_all2_induct)
  case Nil
  then show ?case by simp
next
  case (Cons a xs b ys)
  then show ?case
    by (simp add: list_all2_insort_key[OF _ _ assms(2)])
qed

lemma assigned_rename:
  assumes perm: "is_perm p (length guests)"
  shows "set (assigned (s \<circ> rename p) (reorder p guests) m) = set (assigned s guests m)"
    and "length (assigned (s \<circ> rename p) (reorder p guests) m) = length (assigned s guests m)"
proof -
  let ?n = "length guests"
  let ?R = "\<lambda>i. \<lparr>row_guest_id = guest_id (guests ! i), row_name = name (guests ! i),
               row_arrival_min = arrival_min (guests ! i), wait_min = s (Wait i)\<rparr>"
  let ?Q = "\<lambda>i. s (X i m) = 1"
  have "assigned (s \<circ> rename p) (reorder p guests) m
      = map (\<lambda>j. ?R (p ! j)) (filter (\<lambda>j. ?Q (p ! j)) [0..<?n])"
    by (simp add: assigned_eq length_reorder[OF perm] nth_reorder[OF perm] cong: map_cong)
  also have "\<dots> = map ?R (filter ?Q (map (\<lambda>j. p ! j) [0..<?n]))"
    by (simp add: filter_map comp_def)
  also have "\<dots> = map ?R (filter ?Q p)"
    using map_perm_nth[OF perm, of "\<lambda>i. i"] by simp
  finally have eq: "assigned (s \<circ> rename p) (reorder p guests) m = map ?R (filter ?Q p)" .
  have sets: "set (filter ?Q p) = set (filter ?Q [0..<?n])"
    using perm by (auto simp add: is_perm_def)
  show "set (assigned (s \<circ> rename p) (reorder p guests) m) = set (assigned s guests m)"
    by (subst eq, subst assigned_eq[of s guests m]) (simp only: set_map sets)
  have "distinct (filter ?Q p)" "distinct (filter ?Q [0..<?n])"
    using perm by (simp_all add: is_perm_def)
  then have "length (filter ?Q p) = length (filter ?Q [0..<?n])"
    using sets by (metis distinct_card)
  then show "length (assigned (s \<circ> rename p) (reorder p guests) m)
      = length (assigned s guests m)"
    by (subst eq, subst assigned_eq[of s guests m]) (simp only: length_map)
qed

lemma trip_out_rename:
  assumes perm: "is_perm p (length guests)"
  shows "same_trip (trip_out s guests caps K m)
           (trip_out (s \<circ> rename p) (reorder p guests) caps K m)"
  by (simp add: same_trip_def trip_out_def Let_def vehicle_of_def assigned_rename[OF perm])

lemma same_trip_departure: "same_trip t t' \<Longrightarrow> departure_min t = departure_min t'"
  by (simp add: same_trip_def)

lemma trips_out_rename:
  assumes perm: "is_perm p (length guests)"
  shows "list_all2 same_trip (trips_out s guests caps K)
           (trips_out (s \<circ> rename p) (reorder p guests) caps K)"
proof -
  let ?ms = "filter (\<lambda>m. s (Used m) \<noteq> 0) [0..<length guests]"
  have "list_all2 same_trip (map (trip_out s guests caps K) ?ms)
          (map (trip_out (s \<circ> rename p) (reorder p guests) caps K) ?ms)"
    by (simp add: list_all2_map1 list_all2_map2 list_all2_refl trip_out_rename[OF perm])
  then have "list_all2 same_trip
      (sort_key departure_min (map (trip_out s guests caps K) ?ms))
      (sort_key departure_min (map (trip_out (s \<circ> rename p) (reorder p guests) caps K) ?ms))"
    by (rule list_all2_sort_key) (rule same_trip_departure)
  then show ?thesis
    by (simp add: trips_out_def length_reorder[OF perm])
qed

lemma solve_Inr_caps:
  assumes "guests \<noteq> []" "solve_pickups_multitrip solver guests params = Inr r"
  shows "\<not> (\<exists>c \<in> set (vehicle_caps_of params). c < 1) \<and> vehicle_caps_of params \<noteq> []"
  using assms by (auto simp add: solve_pickups_multitrip_def Let_def split: if_splits)

lemma is_perm_Nil: "is_perm p 0 \<longleftrightarrow> p = []"
  by (auto simp add: is_perm_def)

section \<open>A lower bound on the objective\<close>

lemma sat_used_bool:
  assumes "build_model guests params caps = Inr mdl" "satisfies s mdl" "m < length guests"
  shows "0 \<le> s (Used m) \<and> s (Used m) \<le> 1"
  using declared_vars_sat[OF assms(1,2)] assms(3)
  by (simp add: declared_vars_def NewBoolVar_def ball_Un)

lemma sat_wait_nonneg:
  assumes "build_model guests params caps = Inr mdl" "satisfies s mdl" "i < length guests"
  shows "0 \<le> s (Wait i)"
  using wait_constraints_sat[OF assms]
  by (simp add: wait_constraints_def ball_Un NewIntVar_def)

lemma sat_vmax:
  assumes "build_model guests params caps = Inr mdl" "satisfies s mdl"
    "i < length guests" "m < length guests" "s (X i m) = 1"
  shows "s (Vmax i m) = arrival_min (guests ! i)"
proof -
  have "\<forall>c \<in> set (masked_arrivals guests (min_a guests) (max_a guests)
      (horizon_of guests params) m i). c s"
    using trip_constraints_sat[OF assms(1,2,4)] assms(3)
    by (auto simp add: trip_constraints_def Let_def)
  then show ?thesis
    using assms(5) by (simp add: masked_arrivals_def Let_def OnlyEnforceIf_def)
qed

lemma sat_max_arr_ge:
  assumes "build_model guests params caps = Inr mdl" "satisfies s mdl"
    "i < length guests" "m < length guests"
  shows "s (Vmax i m) \<le> s (Max_arr m)"
proof -
  let ?vs = "map s (map (\<lambda>i. Vmax i m) [0..<length guests] @ [Dummy_max m])"
  have "AddMaxEquality (Max_arr m) (map (\<lambda>i. Vmax i m) [0..<length guests] @ [Dummy_max m]) s"
    using trip_constraints_sat[OF assms(1,2,4)]
    by (simp add: trip_constraints_def Let_def ball_Un)
  then have "s (Max_arr m) = Max (set ?vs)"
    by (simp add: AddMaxEquality_def py_max_Max)
  moreover have "s (Vmax i m) \<in> set ?vs"
    using assms(3) by simp
  ultimately show ?thesis
    by (metis List.finite_set Max_ge)
qed

text \<open>A guest waits at least until the arrival of every guest of the same trip.\<close>

lemma sat_wait_lower:
  assumes "build_model guests params caps = Inr mdl" "satisfies s mdl"
    "i < length guests" "j < length guests" "m < length guests"
    "s (X i m) = 1" "s (X j m) = 1"
  shows "arrival_min (guests ! j) - arrival_min (guests ! i) \<le> s (Wait i)"
proof -
  have "s (Wait i) = s (Max_arr m) - arrival_min (guests ! i)"
    using sat_wait[OF assms(1,2,3)] sat_dep_guest[OF assms(1,2,3,5,6)] sat_dep[OF assms(1,2,5)]
    by simp
  moreover have "arrival_min (guests ! j) \<le> s (Max_arr m)"
    using sat_vmax[OF assms(1,2,4,5,7)] sat_max_arr_ge[OF assms(1,2,4,5)] by simp
  ultimately show ?thesis by simp
qed

lemma two_guest_bound:
  assumes mdl: "build_model guests params caps = Inr mdl" and sat: "satisfies s mdl"
    and two: "length guests = 2"
    and gap: "arrival_min (guests ! 0) - arrival_min (guests ! 1) = 1
            \<or> arrival_min (guests ! 1) - arrival_min (guests ! 0) = 1"
  shows "2 \<le> objective mdl s"
proof -
  have n: "[0..<length guests] = [0, 1]"
    by (simp add: two upt_rec)
  have obj: "objective mdl s = s (Wait 0) + s (Wait 1) + (s (Used 0) + s (Used 1))"
    using sat_total_wait[OF mdl sat]
    by (simp add: build_model_objective[OF mdl] trip_penalty_def n)
  have lt: "(0::nat) < length guests" "(1::nat) < length guests"
    by (simp_all add: two)
  note xb = sat_x_bool[OF mdl sat]
  note one = sat_one_trip[OF mdl sat]
  have x0: "s (X 0 0) + s (X 0 1) = 1" and x1: "s (X 1 0) + s (X 1 1) = 1"
    using one[OF lt(1)] one[OF lt(2)] by (simp_all add: n)
  have w0: "0 \<le> s (Wait 0)" and w1: "0 \<le> s (Wait 1)"
    using sat_wait_nonneg[OF mdl sat lt(1)] sat_wait_nonneg[OF mdl sat lt(2)] by simp_all
  have u0: "0 \<le> s (Used 0)" and u1: "0 \<le> s (Used 1)"
    using sat_used_bool[OF mdl sat lt(1)] sat_used_bool[OF mdl sat lt(2)] by simp_all
  have same: "1 \<le> s (Wait 0) + s (Wait 1) \<and> s (Used m) = 1"
    if "m < length guests" "s (X 0 m) = 1" "s (X 1 m) = 1" for m
    using sat_wait_lower[OF mdl sat lt(1) lt(2) that(1) that(2) that(3)]
      sat_wait_lower[OF mdl sat lt(2) lt(1) that(1) that(3) that(2)]
      sat_x_used[OF mdl sat lt(1) that(1) that(2)] gap w0 w1
    by auto
  have apart: "s (Used m) = 1 \<and> s (Used m') = 1"
    if "m < length guests" "m' < length guests" "s (X 0 m) = 1" "s (X 1 m') = 1" for m m'
    using sat_x_used[OF mdl sat lt(1) that(1) that(3)]
      sat_x_used[OF mdl sat lt(2) that(2) that(4)]
    by simp
  have b: "s (X 0 0) = 0 \<or> s (X 0 0) = 1" "s (X 1 0) = 0 \<or> s (X 1 0) = 1"
    using xb[OF lt(1) lt(1)] xb[OF lt(2) lt(1)] by arith+
  consider "s (X 0 0) = 1" "s (X 1 0) = 1" | "s (X 0 1) = 1" "s (X 1 1) = 1"
    | "s (X 0 0) = 1" "s (X 1 1) = 1" | "s (X 0 1) = 1" "s (X 1 0) = 1"
    using b x0 x1 by auto
  then show ?thesis
  proof cases
    case 1
    from same[OF lt(1) 1] show ?thesis using obj u1 by simp
  next
    case 2
    from same[OF lt(2) 2] show ?thesis using obj u0 by simp
  next
    case 3
    from apart[OF lt(1) lt(2) 3] show ?thesis using obj w0 w1 by simp
  next
    case 4
    from apart[OF lt(2) lt(1) 4] show ?thesis using obj w0 w1 by simp
  qed
qed


lemma model_of_ab:
  "build_model guests_ab params2 (vehicle_caps_of params2) = Inr (model_of guests_ab params2)"
  using together_sat_ab by (auto simp add: model_of_def caps2)

lemma model_of_ba:
  "build_model guests_ba params2 (vehicle_caps_of params2) = Inr (model_of guests_ba params2)"
  using together_unsat_ba by (auto simp add: model_of_def caps2)

lemma optimal_together: "optimal plan_together (model_of guests_ab params2)"
proof -
  have sat: "satisfies plan_together (model_of guests_ab params2)"
    using together_sat_ab model_of_ab by (auto simp add: caps2)
  have "objective (model_of guests_ab params2) plan_together
      = plan_together Total_wait + trip_penalty * (\<Sum>m\<leftarrow>[0..<length guests_ab]. plan_together (Used m))"
    by (simp only: build_model_objective[OF model_of_ab])
  also have "\<dots> = 2"
    by (simp add: trip_penalty_def guests_ab_def numeral_2_eq_2)
  finally have "objective (model_of guests_ab params2) plan_together = 2" .
  moreover have "2 \<le> objective (model_of guests_ab params2) s'"
    if "satisfies s' (model_of guests_ab params2)" for s'
    by (rule two_guest_bound[OF model_of_ab that]) (simp_all add: guests_ab_def)
  ultimately show ?thesis
    using sat by (simp add: optimal_def)
qed

lemma optimal_apart: "optimal plan_apart (model_of guests_ba params2)"
proof -
  have sat: "satisfies plan_apart (model_of guests_ba params2)"
    using together_unsat_ba model_of_ba by (auto simp add: caps2)
  have "objective (model_of guests_ba params2) plan_apart
      = plan_apart Total_wait + trip_penalty * (\<Sum>m\<leftarrow>[0..<length guests_ba]. plan_apart (Used m))"
    by (simp only: build_model_objective[OF model_of_ba])
  also have "\<dots> = 2"
    by (simp add: trip_penalty_def guests_ba_def numeral_2_eq_2)
  finally have "objective (model_of guests_ba params2) plan_apart = 2" .
  moreover have "2 \<le> objective (model_of guests_ba params2) s'"
    if "satisfies s' (model_of guests_ba params2)" for s'
    by (rule two_guest_bound[OF model_of_ba that]) (simp_all add: guests_ba_def)
  ultimately show ?thesis
    using sat by (simp add: optimal_def)
qed

lemma tie_solver_ab: "tie_solver (model_of guests_ab params2) = (FEASIBLE, plan_together)"
  using together_sat_ab model_of_ab by (auto simp add: tie_solver_def caps2)

lemma tie_solver_ba: "tie_solver (model_of guests_ba params2) = (FEASIBLE, plan_apart)"
  using together_unsat_ba model_of_ba by (auto simp add: tie_solver_def caps2)

section \<open>Construction succeeds, the solve returns\<close>

lemma together_ok:
  assumes "rule_ok guests params"
  shows "\<exists>tg. together_constraints (id_to_i guests) M (num_cars params)
           (must_ride_together_in_vehicle params) = Inr tg"
proof (cases "must_ride_together_in_vehicle params")
  case None
  then show ?thesis by (simp add: together_constraints_def)
next
  case (Some r)
  with assms have a: "id_to_i guests (guest_id_a r) \<noteq> None"
    and b: "id_to_i guests (guest_id_b r) \<noteq> None"
    and k: "0 \<le> rule_vehicle_index r \<and> rule_vehicle_index r < num_cars params"
    by (simp_all add: rule_ok_def id_to_i_None)
  then show ?thesis
    using Some by (auto simp add: together_constraints_def Let_def)
qed

lemma build_model_ok:
  assumes "rule_ok guests params"
  shows "\<exists>mdl. build_model guests params caps = Inr mdl"
  using together_ok[OF assms, of "length guests"]
  by (auto simp add: build_model_def Let_def)

lemma solve_returns:
  assumes "construction_succeeds guests params"
  shows "\<exists>r. solve_pickups_multitrip solver guests params = Inr r"
proof (cases "guests = []")
  case True
  then show ?thesis by (simp add: solve_pickups_multitrip_def)
next
  case False
  with assms have caps: "\<not> (\<exists>c \<in> set (vehicle_caps_of params). c < 1)"
    "vehicle_caps_of params \<noteq> []" and rule: "rule_ok guests params"
    by (auto simp add: construction_succeeds_def list_all_iff)
  from build_model_ok[OF rule] obtain mdl where
    "build_model guests params (vehicle_caps_of params) = Inr mdl" by blast
  then show ?thesis
    using False caps
    by (cases "solver mdl") (simp add: solve_pickups_multitrip_def Let_def)
qed

lemma solve_fails:
  assumes "guests \<noteq> []"
    and "\<not> (list_all (\<lambda>c. 1 \<le> c) (vehicle_caps_of params) \<and> vehicle_caps_of params \<noteq> []
         \<and> rule_ok guests params)"
  shows "\<exists>e. solve_pickups_multitrip solver guests params = Inl e"
proof (cases "list_all (\<lambda>c. 1 \<le> c) (vehicle_caps_of params) \<and> vehicle_caps_of params \<noteq> []")
  case False
  then show ?thesis
    using assms(1) by (auto simp add: solve_pickups_multitrip_def Let_def list_all_iff)
next
  case True
  with assms(2) have "\<not> rule_ok guests params" by simp
  then obtain r where r: "must_ride_together_in_vehicle params = Some r"
    and bad: "guest_id_a r \<notin> guest_id ` set guests \<or> guest_id_b r \<notin> guest_id ` set guests
       \<or> rule_vehicle_index r < 0 \<or> num_cars params \<le> rule_vehicle_index r"
    by (auto simp add: rule_ok_def split: option.splits)
  from solve_stray_rule[OF assms(1) r bad] show ?thesis .
qed

lemma construction3: "construction_succeeds guests3 params3"
proof -
  have "rule_ok guests3 params3"
    by (simp add: rule_ok_def params3_def)
  moreover have "library_ints_ok guests3 params3"
    by (simp only: library_ints_ok_def caps3 Let_def)
       (simp add: int64_def params3_def guests3_def min_a_def max_a_def arrivals_def
          horizon_of_def BIG_POS_def)
  ultimately show ?thesis
    by (simp add: construction_succeeds_def caps3)
qed

lemma solve3_idle: "solve_pickups_multitrip idle_solver guests3 params3 = Inr infeasible_result"
proof -
  have "\<exists>mdl. build_model guests3 params3 [2] = Inr mdl"
    by (simp add: build_model_def Let_def together_constraints_def params3_def)
  then show ?thesis
    by (auto simp add: solve_pickups_multitrip_def caps3 idle_solver_def) 
       (simp add: guests3_def)
qed

section \<open>Optimal solutions under reordering\<close>

lemma perm_inverse:
  assumes "is_perm p n"
  shows "\<exists>q. is_perm q n \<and> (\<forall>i < n. p ! (q ! i) = i)"
proof -
  let ?f = "the_inv_into {..<n} ((!) p)"
  let ?q = "map ?f [0..<n]"
  have len: "length p = n" by (rule is_perm_length[OF assms])
  have inj: "inj_on ((!) p) {..<n}"
    using assms len by (intro inj_on_nth) (simp_all add: is_perm_def)
  have img: "(!) p ` {..<n} = {..<n}"
    using set_map_perm[OF assms, of "\<lambda>i. i"] by (simp add: atLeast0LessThan)
  have bij: "bij_betw ((!) p) {..<n} {..<n}"
    using inj img by (simp add: bij_betw_def)
  then have bij': "bij_betw ?f {..<n} {..<n}"
    by (rule bij_betw_the_inv_into)
  have "distinct ?q"
    using bij' by (simp add: distinct_map bij_betw_def atLeast0LessThan)
  moreover have "set ?q = {..<n}"
    using bij' by (simp add: bij_betw_def atLeast0LessThan)
  moreover have "p ! (?q ! i) = i" if "i < n" for i
    using that f_the_inv_into_f_bij_betw[OF bij, of i] by simp
  ultimately show ?thesis
    unfolding is_perm_def by blast
qed

lemma reorder_inverse:
  assumes "is_perm p (length xs)" "is_perm q (length xs)" "\<forall>i < length xs. p ! (q ! i) = i"
  shows "reorder q (reorder p xs) = xs"
proof -
  have "reorder q (reorder p xs) = map (\<lambda>i. reorder p xs ! (q ! i)) [0..<length xs]"
    using map_perm_nth[OF assms(2), of "\<lambda>i. reorder p xs ! i"] by (simp add: reorder_def)
  also have "\<dots> = map (\<lambda>i. xs ! i) [0..<length xs]"
    using assms(3) nth_reorder[OF assms(1)] is_perm_nth[OF assms(2)]
    by (intro map_cong[OF refl]) simp
  also have "\<dots> = xs"
    by (rule map_nth)
  finally show ?thesis .
qed

lemma model_rename_back:
  assumes perm: "is_perm p (length guests)" and ids: "distinct (map guest_id guests)"
    and ne: "guests \<noteq> []"
    and mdl: "build_model guests params caps = Inr mdl"
    and mdl': "build_model (reorder p guests) params caps = Inr mdl'"
    and sat': "satisfies s' mdl'"
  shows "\<exists>s. satisfies s mdl \<and> objective mdl s = objective mdl' s'"
proof -
  let ?g' = "reorder p guests"
  from perm_inverse[OF perm] obtain q where
    q: "is_perm q (length guests)" and inv: "\<forall>i < length guests. p ! (q ! i) = i"
    by blast
  have len: "length ?g' = length guests"
    by (rule length_reorder[OF perm])
  have rt: "reorder q ?g' = guests"
    by (rule reorder_inverse[OF perm q inv])
  have q': "is_perm q (length ?g')"
    using q by (simp only: len)
  have ne': "?g' \<noteq> []"
    using ne by (simp add: reorder_Nil_iff[OF perm])
  from model_rename[OF q' distinct_ids_reorder[OF perm ids] ne' mdl' sat']
  obtain mdl'' where "build_model (reorder q ?g') params caps = Inr mdl''"
    and "satisfies (s' \<circ> rename q) mdl''"
    and "objective mdl'' (s' \<circ> rename q) = objective mdl' s'"
    by blast
  then show ?thesis
    using mdl by (auto simp add: rt)
qed

lemma optimal_reorder:
  assumes perm: "is_perm p (length guests)" and ids: "distinct (map guest_id guests)"
    and ne: "guests \<noteq> []"
    and mdl: "build_model guests params caps = Inr mdl"
    and mdl': "build_model (reorder p guests) params caps = Inr mdl'"
    and opt: "optimal s mdl"
  shows "optimal (s \<circ> rename p) mdl' \<and> objective mdl' (s \<circ> rename p) = objective mdl s"
proof -
  from opt have sat: "satisfies s mdl"
    and least: "\<And>t. satisfies t mdl \<Longrightarrow> objective mdl s \<le> objective mdl t"
    by (simp_all add: optimal_def)
  from model_rename[OF perm ids ne mdl sat] mdl'
  have sat': "satisfies (s \<circ> rename p) mdl'"
    and obj: "objective mdl' (s \<circ> rename p) = objective mdl s"
    by auto
  have "objective mdl' (s \<circ> rename p) \<le> objective mdl' t'" if "satisfies t' mdl'" for t'
  proof -
    from model_rename_back[OF perm ids ne mdl mdl' that] obtain t where
      "satisfies t mdl" "objective mdl t = objective mdl' t'" by blast
    with least[of t] obj show ?thesis by simp
  qed
  with sat' obj show ?thesis
    by (simp add: optimal_def)
qed

lemma optimal_value_order_invariant:
  assumes perm: "is_perm p (length guests)" and ids: "distinct (map guest_id guests)"
    and ne: "guests \<noteq> []"
    and mdl: "build_model guests params caps = Inr mdl"
    and mdl': "build_model (reorder p guests) params caps = Inr mdl'"
    and opt: "optimal s mdl" and opt': "optimal s' mdl'"
  shows "objective mdl' s' = objective mdl s"
proof -
  from optimal_reorder[OF perm ids ne mdl mdl' opt]
  have o: "optimal (s \<circ> rename p) mdl'" and e: "objective mdl' (s \<circ> rename p) = objective mdl s"
    by simp_all
  from o opt' have "objective mdl' (s \<circ> rename p) \<le> objective mdl' s'"
    "objective mdl' s' \<le> objective mdl' (s \<circ> rename p)"
    by (simp_all add: optimal_def)
  with e show ?thesis by simp
qed

lemma used_count:
  assumes "build_model guests params caps = Inr mdl" "satisfies s mdl"
  shows "(\<Sum>m\<leftarrow>[0..<length guests]. s (Used m))
       = int (length (filter (\<lambda>m. s (Used m) \<noteq> 0) [0..<length guests]))"
proof -
  have "(\<Sum>m\<leftarrow>ms. s (Used m)) = int (length (filter (\<lambda>m. s (Used m) \<noteq> 0) ms))"
    if "set ms \<subseteq> {..<length guests}" for ms
    using that
  proof (induction ms)
    case Nil
    then show ?case by simp
  next
    case (Cons m ms)
    then have "m < length guests" by simp
    from sat_used_bool[OF assms this] have "s (Used m) = 0 \<or> s (Used m) = 1" by arith
    with Cons show ?case by auto
  qed
  from this[of "[0..<length guests]"] show ?thesis
    by (simp add: subset_iff)
qed

lemma result_objective_ok:
  assumes "build_model guests params caps = Inr mdl" "satisfies s mdl"
  shows "result_objective (ok_result s guests params caps) = Some (objective mdl s)"
  by (simp add: result_objective_def ok_result_def Let_def trips_out_def
      build_model_objective[OF assms(1)] used_count[OF assms])


lemma model_of_eq: "build_model guests params (vehicle_caps_of params) = Inr mdl \<Longrightarrow>
    model_of guests params = mdl"
  by (simp add: model_of_def)

lemma solve_ok_answer:
  assumes "solver_contract solver"
    and "solve_pickups_multitrip solver guests params = Inr r"
    and "status r = ''ok''" and "guests \<noteq> []"
  shows "build_model guests params (vehicle_caps_of params) = Inr (model_of guests params)
       \<and> satisfies (snd (solver (model_of guests params))) (model_of guests params)
       \<and> r = ok_result (snd (solver (model_of guests params))) guests params
               (vehicle_caps_of params)"
proof -
  from solve_Inr_cases[OF assms(2)] assms(3,4) obtain mdl where
    mdl: "build_model guests params (vehicle_caps_of params) = Inr mdl"
    and st: "fst (solver mdl) \<in> {OPTIMAL, FEASIBLE}"
    and r: "r = ok_result (snd (solver mdl)) guests params (vehicle_caps_of params)"
    by (auto simp add: infeasible_result_def)
  from assms(1) st have "satisfies (snd (solver mdl)) mdl"
    unfolding solver_contract_def by blast
  then show ?thesis
    using mdl r by (simp add: model_of_eq[OF mdl])
qed

section \<open>The claims\<close>

text \<open>
  Claim C1. On every input on which the construction of the instance succeeds,
  \<open>solve_pickups_multitrip\<close> returns a result, whatever the solver answers; the status
  of the result is \<open>ok\<close> or \<open>infeasible\<close>, the result has a reason if and only if
  its status is \<open>infeasible\<close>, and it has a list of trips only if its status is
  \<open>ok\<close>.
\<close>

theorem result_shape:
  assumes "construction_succeeds guests params"
  shows "\<exists>r. solve_pickups_multitrip solver guests params = Inr r
       \<and> (status r = ''ok'' \<or> status r = ''infeasible'')
       \<and> (reason r \<noteq> None \<longleftrightarrow> status r = ''infeasible'')
       \<and> (trips r \<noteq> None \<longrightarrow> status r = ''ok'')"
proof -
  from solve_returns[OF assms] obtain r where
    r: "solve_pickups_multitrip solver guests params = Inr r" by blast
  from solve_Inr_cases[OF r]
  have "(status r = ''ok'' \<or> status r = ''infeasible'')
       \<and> (reason r \<noteq> None \<longleftrightarrow> status r = ''infeasible'')
       \<and> (trips r \<noteq> None \<longrightarrow> status r = ''ok'')"
    by (auto simp add: empty_result_def infeasible_result_def ok_result_def Let_def)
  with r show ?thesis by blast
qed

theorem result_shape_witness:
  "construction_succeeds guests3 params3
   \<and> solve_pickups_multitrip (replay_solver plan3) guests3 params3 = Inr result3
   \<and> status result3 = ''ok'' \<and> reason result3 = None \<and> trips result3 \<noteq> None
   \<and> solve_pickups_multitrip idle_solver guests3 params3 = Inr infeasible_result
   \<and> status infeasible_result = ''infeasible'' \<and> reason infeasible_result \<noteq> None
   \<and> trips infeasible_result = None
   \<and> construction_succeeds [] zero_cap_params
   \<and> solve_pickups_multitrip idle_solver [] zero_cap_params = Inr (empty_result zero_cap_params)
   \<and> status (empty_result zero_cap_params) = ''ok''
   \<and> reason (empty_result zero_cap_params) = None"
proof -
  have e: "construction_succeeds [] zero_cap_params"
    by (simp add: construction_succeeds_def)
  from result_shape[OF construction3, of "replay_solver plan3"]
    result_shape[OF construction3, of idle_solver]
    result_shape[OF e, of idle_solver]
  show ?thesis
    using construction3 e solve3 solve3_idle
    by (simp add: result3_def infeasible_result_def empty_result_def solve_pickups_multitrip_def)
qed

text \<open>
  Claim C2. In a result with status \<open>ok\<close>, every trip departs at its maximal arrival
  time, and every guest of the trip waits from the guest's arrival to that departure.
  The solution read by the extraction is one the solver reports as found, so it satisfies
  the model.
\<close>

theorem departure_consistency:
  assumes "solver_contract solver"
    and "solve_pickups_multitrip solver guests params = Inr r"
    and "status r = ''ok''"
    and "trips r = Some ts"
    and "t \<in> set ts"
  shows "departure_min t = max_arrival_min t
       \<and> (\<forall>g \<in> set (trip_guests t). wait_min g = departure_min t - row_arrival_min g)"
proof (cases "guests = []")
  case True
  then have "r = empty_result params"
    using solve_Inr_cases[OF assms(2)] by simp
  then show ?thesis
    using assms(4,5) by (simp add: empty_result_def)
next
  case False
  from solve_ok_plan[OF assms(1,2,3) False] obtain mdl s where
    mdl: "build_model guests params (vehicle_caps_of params) = Inr mdl"
    and sat: "satisfies s mdl"
    and r: "r = ok_result s guests params (vehicle_caps_of params)"
    by blast
  from r assms(4) have "ts = trips_out s guests (vehicle_caps_of params) (nat (num_cars params))"
    by (simp add: ok_result_def Let_def)
  with assms(5) obtain m where m: "m < length guests"
    and t: "t = trip_out s guests (vehicle_caps_of params) (nat (num_cars params)) m"
    using trips_out_set by blast
  have dep: "departure_min t = max_arrival_min t"
    using sat_dep[OF mdl sat m] by (simp add: t trip_out_def Let_def)
  have "wait_min g = departure_min t - row_arrival_min g" if "g \<in> set (trip_guests t)" for g
  proof -
    from that have "g \<in> set (assigned s guests m)"
      by (simp add: t trip_out_def Let_def)
    then obtain i where i: "i < length guests" and x: "s (X i m) = 1"
      and g: "g = \<lparr>row_guest_id = guest_id (guests ! i), row_name = name (guests ! i),
                   row_arrival_min = arrival_min (guests ! i), wait_min = s (Wait i)\<rparr>"
      by (auto simp add: assigned_eq)
    have "s (Wait i) = s (Dep m) - arrival_min (guests ! i)"
      using sat_wait[OF mdl sat i] sat_dep_guest[OF mdl sat i m x] by simp
    then show ?thesis
      by (simp add: g t trip_out_def Let_def)
  qed
  with dep show ?thesis by blast
qed

theorem departure_consistency_witness:
  "solver_contract (replay_solver plan3)
   \<and> solve_pickups_multitrip (replay_solver plan3) guests3 params3 = Inr result3
   \<and> status result3 = ''ok''
   \<and> trips result3 = Some [trip3_first, trip3_second]
   \<and> trip3_first \<in> set [trip3_first, trip3_second]
   \<and> departure_min trip3_first = max_arrival_min trip3_first
   \<and> hd (trip_guests trip3_first) \<in> set (trip_guests trip3_first)
   \<and> wait_min (hd (trip_guests trip3_first))
       = departure_min trip3_first - row_arrival_min (hd (trip_guests trip3_first))"
proof -
  have ok: "status result3 = ''ok''" and ts: "trips result3 = Some [trip3_first, trip3_second]"
    by (simp_all add: result3_def)
  have mem: "trip3_first \<in> set [trip3_first, trip3_second]" by simp
  have row: "hd (trip_guests trip3_first) \<in> set (trip_guests trip3_first)"
    by (simp add: trip3_first_def)
  from departure_consistency[OF replay_solver_contract solve3 ok ts mem]
  show ?thesis
    using replay_solver_contract solve3 ok ts mem row by blast
qed

text \<open>
  Claim C3. In a result with status \<open>ok\<close>, two trips at different places of the list
  that have the same vehicle index occupy disjoint half-open intervals from their
  departure to their departure plus the round trip duration.
\<close>

theorem vehicle_non_overlap:
  assumes "solver_contract solver"
    and "solve_pickups_multitrip solver guests params = Inr r"
    and "status r = ''ok''"
    and "trips r = Some ts"
    and "p < length ts" and "q < length ts" and "p \<noteq> q"
    and "vehicle_index (ts ! p) = Some k" and "vehicle_index (ts ! q) = Some k"
  shows "{departure_min (ts ! p) ..< departure_min (ts ! p) + round_trip_min params}
       \<inter> {departure_min (ts ! q) ..< departure_min (ts ! q) + round_trip_min params} = {}"
proof (cases "guests = []")
  case True
  then have "r = empty_result params"
    using solve_Inr_cases[OF assms(2)] by simp
  then show ?thesis
    using assms(4,5) by (simp add: empty_result_def)
next
  case False
  let ?caps = "vehicle_caps_of params"
  let ?K = "nat (num_cars params)"
  from solve_ok_plan[OF assms(1,2,3) False] obtain mdl s where
    mdl: "build_model guests params ?caps = Inr mdl"
    and sat: "satisfies s mdl"
    and r: "r = ok_result s guests params ?caps"
    by blast
  from r assms(4) have ts: "ts = trips_out s guests ?caps ?K"
    by (simp add: ok_result_def Let_def)
  from assms(5) ts obtain m where m: "m < length guests"
    and tp: "ts ! p = trip_out s guests ?caps ?K m"
    using trips_out_set[of "ts ! p" s guests ?caps ?K] nth_mem by blast
  from assms(6) ts obtain m' where m': "m' < length guests"
    and tq: "ts ! q = trip_out s guests ?caps ?K m'"
    using trips_out_set[of "ts ! q" s guests ?caps ?K] nth_mem by blast
  have "distinct (map trip_index ts)"
    unfolding ts by (rule trips_out_distinct)
  then have "trip_index (ts ! p) \<noteq> trip_index (ts ! q)"
    using assms(5,6,7) nth_eq_iff_index_eq[of "map trip_index ts" p q] by simp
  then have ne: "m \<noteq> m'"
    by (auto simp add: tp tq)
  from assms(8) have "vehicle_of s ?K m = Some k"
    by (simp add: tp trip_out_def Let_def)
  then have k: "k < ?K" and z: "s (Z m k) = 1"
    using vehicle_of_Some by blast+
  from assms(9) have "vehicle_of s ?K m' = Some k"
    by (simp add: tq trip_out_def Let_def)
  then have z': "s (Z m' k) = 1"
    using vehicle_of_Some by blast
  from sat_no_overlap[OF mdl sat k m m' ne z z']
  have "s (Dep m) + round_trip_min params \<le> s (Dep m')
      \<or> s (Dep m') + round_trip_min params \<le> s (Dep m)" .
  moreover have "departure_min (ts ! p) = s (Dep m)" "departure_min (ts ! q) = s (Dep m')"
    by (simp_all add: tp tq trip_out_def Let_def)
  ultimately show ?thesis by auto
qed

theorem vehicle_non_overlap_witness:
  "solver_contract (replay_solver plan3)
   \<and> solve_pickups_multitrip (replay_solver plan3) guests3 params3 = Inr result3
   \<and> status result3 = ''ok''
   \<and> trips result3 = Some [trip3_first, trip3_second]
   \<and> (0::nat) < length [trip3_first, trip3_second]
   \<and> (1::nat) < length [trip3_first, trip3_second]
   \<and> (0::nat) \<noteq> 1
   \<and> vehicle_index ([trip3_first, trip3_second] ! 0) = Some 0
   \<and> vehicle_index ([trip3_first, trip3_second] ! 1) = Some 0
   \<and> {departure_min ([trip3_first, trip3_second] ! 0) ..<
        departure_min ([trip3_first, trip3_second] ! 0) + round_trip_min params3}
     \<inter> {departure_min ([trip3_first, trip3_second] ! 1) ..<
        departure_min ([trip3_first, trip3_second] ! 1) + round_trip_min params3} = {}"
proof -
  have ok: "status result3 = ''ok''" and ts: "trips result3 = Some [trip3_first, trip3_second]"
    by (simp_all add: result3_def)
  have p: "(0::nat) < length [trip3_first, trip3_second]"
    and q: "(1::nat) < length [trip3_first, trip3_second]"
    and pq: "(0::nat) \<noteq> 1"
    by simp_all
  have vp: "vehicle_index ([trip3_first, trip3_second] ! 0) = Some 0"
    and vq: "vehicle_index ([trip3_first, trip3_second] ! 1) = Some 0"
    by (simp_all add: trip3_first_def trip3_second_def)
  from vehicle_non_overlap[OF replay_solver_contract solve3 ok ts p q pq vp vq]
  show ?thesis
    using replay_solver_contract solve3 ok ts p q pq vp vq by blast
qed

text \<open>
  Claim C6. In a result with status \<open>ok\<close> on a guest list that is not empty, the
  total wait is the sum of the waits of all the guests listed in all the trips, and the
  number of trips used is the length of the list of trips.
\<close>

theorem totals_consistent:
  assumes "solver_contract solver"
    and "guests \<noteq> []"
    and "solve_pickups_multitrip solver guests params = Inr r"
    and "status r = ''ok''"
  shows "\<exists>ts. trips r = Some ts
       \<and> total_wait_min r = Some (sum_list (map wait_min (concat (map trip_guests ts))))
       \<and> num_trips_used r = Some (length ts)"
proof -
  from solve_ok_plan[OF assms(1,3,4,2)] obtain mdl s where
    mdl: "build_model guests params (vehicle_caps_of params) = Inr mdl"
    and sat: "satisfies s mdl"
    and r: "r = ok_result s guests params (vehicle_caps_of params)"
    by blast
  show ?thesis
    by (simp add: r ok_result_def Let_def wait_sum_plan[OF mdl sat])
qed

theorem totals_consistent_witness:
  "solver_contract (replay_solver plan3) \<and> guests3 \<noteq> []
   \<and> solve_pickups_multitrip (replay_solver plan3) guests3 params3 = Inr result3
   \<and> status result3 = ''ok''
   \<and> trips result3 = Some [trip3_first, trip3_second]
   \<and> total_wait_min result3
       = Some (sum_list (map wait_min (concat (map trip_guests [trip3_first, trip3_second]))))
   \<and> num_trips_used result3 = Some (length [trip3_first, trip3_second])"
proof -
  have ne: "guests3 \<noteq> []" by (simp add: guests3_def)
  have ok: "status result3 = ''ok''" and ts: "trips result3 = Some [trip3_first, trip3_second]"
    by (simp_all add: result3_def)
  from totals_consistent[OF replay_solver_contract ne solve3 ok]
  show ?thesis
    using replay_solver_contract ne solve3 ok ts by auto
qed

text \<open>
  Claim C7, amended. An entry of \<open>incompatible_pairs\<close> that names a guest id which no
  guest of the list has changes nothing: the solve with the entry is the solve without it,
  so it adds no constraint and raises no error. On a guest list that is not empty, a
  grouping rule that names an unknown guest id, or a vehicle index outside
  \<open>0..num_cars-1\<close>, makes the solve fail with an error instead of returning a
  result.
\<close>

theorem pairs_skipped_rule_rejected:
  "(gid1 \<notin> guest_id ` set guests \<or> gid2 \<notin> guest_id ` set guests \<longrightarrow>
      solve_pickups_multitrip solver guests
        (params\<lparr>incompatible_pairs := Some (ps @ (gid1, gid2) # qs)\<rparr>)
      = solve_pickups_multitrip solver guests (params\<lparr>incompatible_pairs := Some (ps @ qs)\<rparr>))
   \<and> (guests \<noteq> [] \<and> must_ride_together_in_vehicle params = Some r
        \<and> (guest_id_a r \<notin> guest_id ` set guests \<or> guest_id_b r \<notin> guest_id ` set guests
           \<or> rule_vehicle_index r < 0 \<or> num_cars params \<le> rule_vehicle_index r) \<longrightarrow>
      (\<exists>e. solve_pickups_multitrip solver guests params = Inl e))"
  using solve_skip solve_stray_rule by blast

theorem pairs_skipped_rule_rejected_witness:
  "''zz'' \<notin> guest_id ` set guests3
   \<and> solve_pickups_multitrip (replay_solver plan3) guests3
        (params3\<lparr>incompatible_pairs := Some ([] @ (''a'', ''zz'') # [])\<rparr>)
      = solve_pickups_multitrip (replay_solver plan3) guests3
        (params3\<lparr>incompatible_pairs := Some ([] @ [])\<rparr>)
   \<and> guests3 \<noteq> []
   \<and> must_ride_together_in_vehicle stray_rule_params
      = Some \<lparr>guest_id_a = ''x'', guest_id_b = ''y'', rule_vehicle_index = 7\<rparr>
   \<and> ''x'' \<notin> guest_id ` set guests3
   \<and> (\<exists>e. solve_pickups_multitrip (replay_solver plan3) guests3 stray_rule_params = Inl e)"
proof -
  have zz: "''zz'' \<notin> guest_id ` set guests3" and x: "''x'' \<notin> guest_id ` set guests3"
    and ne: "guests3 \<noteq> []"
    by (simp_all add: guests3_def)
  have rule: "must_ride_together_in_vehicle stray_rule_params
      = Some \<lparr>guest_id_a = ''x'', guest_id_b = ''y'', rule_vehicle_index = 7\<rparr>"
    by (simp add: stray_rule_params_def)
  from pairs_skipped_rule_rejected[where guests = guests3 and solver = "replay_solver plan3"
      and params = params3 and ?gid1.0 = "''a''" and ?gid2.0 = "''zz''" and ps = "[]" and qs = "[]"]
    pairs_skipped_rule_rejected[where guests = guests3 and solver = "replay_solver plan3"
      and params = stray_rule_params
      and r = "\<lparr>guest_id_a = ''x'', guest_id_b = ''y'', rule_vehicle_index = 7\<rparr>"]
  show ?thesis
    using zz x ne rule by simp
qed

text \<open>
  Claim C7 as stated covers every input. On the empty guest list the grouping rule is
  never read: a rule that names unknown guests and vehicle 7 of a fleet of one returns the
  result for no guests.
\<close>

theorem stray_rule_empty_guests_counterexample:
  "must_ride_together_in_vehicle stray_rule_params
      = Some \<lparr>guest_id_a = ''x'', guest_id_b = ''y'', rule_vehicle_index = 7\<rparr>
   \<and> num_cars stray_rule_params = 1
   \<and> solve_pickups_multitrip idle_solver [] stray_rule_params
      = Inr (empty_result stray_rule_params)"
  by (simp add: solve_pickups_multitrip_def stray_rule_params_def params3_def)

text \<open>
  Claim C5. For the empty guest list the solve returns, whatever the other parameters and
  whatever the solver, a result with status \<open>ok\<close>, no trips used, a total wait of
  zero and an empty list of trips.
\<close>

theorem empty_input:
  "solve_pickups_multitrip solver [] params = Inr (empty_result params)
   \<and> status (empty_result params) = ''ok''
   \<and> num_trips_used (empty_result params) = Some 0
   \<and> total_wait_min (empty_result params) = Some 0
   \<and> trips (empty_result params) = Some []"
  by (simp add: solve_pickups_multitrip_def empty_result_def)

theorem empty_input_witness:
  "solve_pickups_multitrip idle_solver [] params3 = Inr (empty_result params3)
   \<and> status (empty_result params3) = ''ok''
   \<and> num_trips_used (empty_result params3) = Some 0
   \<and> total_wait_min (empty_result params3) = Some 0
   \<and> trips (empty_result params3) = Some []"
  by (rule empty_input)

text \<open>
  Claim C9. On the empty guest list the solve returns its result before the capacities
  are normalised or checked and before the grouping rule is read, for any parameters; the
  result lacks the keys \<open>vehicle_capacities\<close>, \<open>max_wait_min\<close> and
  \<open>round_trip_min\<close>, which every result with status \<open>ok\<close> on a guest list that is
  not empty has.
\<close>

theorem empty_input_skips_validation:
  "solve_pickups_multitrip solver [] params = Inr (empty_result params)
   \<and> res_vehicle_capacities (empty_result params) = None
   \<and> res_max_wait_min (empty_result params) = None
   \<and> res_round_trip_min (empty_result params) = None
   \<and> (guests \<noteq> [] \<and> solve_pickups_multitrip solver' guests params' = Inr r \<and> status r = ''ok''
        \<longrightarrow> res_vehicle_capacities r = Some (vehicle_caps_of params')
          \<and> res_max_wait_min r = Some (max_wait_min params')
          \<and> res_round_trip_min r = Some (round_trip_min params'))"
proof -
  have "res_vehicle_capacities r = Some (vehicle_caps_of params')
          \<and> res_max_wait_min r = Some (max_wait_min params')
          \<and> res_round_trip_min r = Some (round_trip_min params')"
    if "guests \<noteq> []" "solve_pickups_multitrip solver' guests params' = Inr r" "status r = ''ok''"
    using solve_Inr_cases[OF that(2)] that(1,3)
    by (auto simp add: infeasible_result_def ok_result_def Let_def)
  then show ?thesis
    by (simp add: solve_pickups_multitrip_def empty_result_def)
qed

lemma zero_cap_caps: "vehicle_caps_of zero_cap_params = [0]"
  by (simp add: vehicle_caps_of_def zero_cap_params_def stray_rule_params_def params3_def
      py_slice_to_def)

theorem empty_input_skips_validation_witness:
  "vehicle_caps_of zero_cap_params = [0]
   \<and> solve_pickups_multitrip idle_solver guests3 zero_cap_params
      = Inl (ValueError ''vehicle_capacities must be >= 1'')
   \<and> solve_pickups_multitrip idle_solver [] zero_cap_params = Inr (empty_result zero_cap_params)
   \<and> res_vehicle_capacities (empty_result zero_cap_params) = None
   \<and> res_max_wait_min (empty_result zero_cap_params) = None
   \<and> res_round_trip_min (empty_result zero_cap_params) = None
   \<and> guests3 \<noteq> []
   \<and> solve_pickups_multitrip (replay_solver plan3) guests3 params3 = Inr result3
   \<and> status result3 = ''ok''
   \<and> res_vehicle_capacities result3 = Some (vehicle_caps_of params3)
   \<and> res_max_wait_min result3 = Some (max_wait_min params3)
   \<and> res_round_trip_min result3 = Some (round_trip_min params3)"
proof -
  have ne: "guests3 \<noteq> []" by (simp add: guests3_def)
  have ok: "status result3 = ''ok''" by (simp add: result3_def)
  have err: "solve_pickups_multitrip idle_solver guests3 zero_cap_params
      = Inl (ValueError ''vehicle_capacities must be >= 1'')"
    by (simp add: solve_pickups_multitrip_def zero_cap_caps ne)
  from empty_input_skips_validation[where solver = idle_solver and params = zero_cap_params
      and guests = guests3 and solver' = "replay_solver plan3" and params' = params3
      and r = result3]
  show ?thesis
    using ne ok err solve3 zero_cap_caps by simp
qed

text \<open>
  Claim C10. The endpoint passes \<open>round_trip_min or 240\<close> to the solver: a request with
  \<open>round_trip_min\<close> zero, or without it, is solved with 240, and the parameters the
  endpoint builds never have a round trip duration of zero.
\<close>

theorem round_trip_zero_defaulted:
  "(req_round_trip_min req = Some 0 \<or> req_round_trip_min req = None \<longrightarrow>
      round_trip_min (request_params req) = 240
      \<and> solve solver req
         = solve_pickups_multitrip solver (request_guests req)
             ((request_params req)\<lparr>round_trip_min := 240\<rparr>))
   \<and> solve solver req = solve_pickups_multitrip solver (request_guests req) (request_params req)
   \<and> round_trip_min (request_params req) \<noteq> 0"
  by (auto simp add: solve_def request_params_def or_240_def split: option.splits)

theorem round_trip_zero_defaulted_witness:
  "req_round_trip_min request0 = Some 0
   \<and> round_trip_min (request_params request0) = 240
   \<and> solve idle_solver request0
      = solve_pickups_multitrip idle_solver (request_guests request0)
          ((request_params request0)\<lparr>round_trip_min := 240\<rparr>)
   \<and> round_trip_min (request_params request0) \<noteq> 0"
proof -
  have z: "req_round_trip_min request0 = Some 0" by (simp add: request0_def)
  from round_trip_zero_defaulted[of request0 idle_solver]
  show ?thesis using z by simp
qed

text \<open>
  Claim C4, amended. For a guest list that is not empty: without \<open>vehicle_capacities\<close>
  the capacities are \<open>capacity_per_car\<close> repeated \<open>num_cars\<close> times; a supplied list
  shorter than \<open>num_cars\<close> is padded with \<open>capacity_per_car\<close>, a longer one is cut by
  the slice \<open>[:num_cars]\<close> (its first \<open>num_cars\<close> entries when \<open>num_cars\<close> is not
  negative), one of the right length is kept; and the solve fails with the error
  \<open>vehicle_capacities must be >= 1\<close> if and only if the normalised list has an entry
  below one, for any solver, since the check comes before the model is built.
\<close>

theorem capacities_normalised_and_checked:
  assumes "guests \<noteq> []"
  shows "(vehicle_capacities params = None \<longrightarrow>
            vehicle_caps_of params = replicate (nat (num_cars params)) (capacity_per_car params))
       \<and> (\<forall>raw. vehicle_capacities params = Some raw \<longrightarrow>
            (int (length raw) < num_cars params \<longrightarrow>
               vehicle_caps_of params
                 = raw @ replicate (nat (num_cars params - int (length raw)))
                           (capacity_per_car params))
          \<and> (num_cars params < int (length raw) \<longrightarrow>
               vehicle_caps_of params = py_slice_to raw (num_cars params)
               \<and> (0 \<le> num_cars params \<longrightarrow>
                    vehicle_caps_of params = take (nat (num_cars params)) raw))
          \<and> (int (length raw) = num_cars params \<longrightarrow> vehicle_caps_of params = raw))
       \<and> (solve_pickups_multitrip solver guests params
             = Inl (ValueError ''vehicle_capacities must be >= 1'')
           \<longleftrightarrow> (\<exists>c \<in> set (vehicle_caps_of params). c < 1))"
proof -
  have "vehicle_caps_of params = replicate (nat (num_cars params)) (capacity_per_car params)"
    if "vehicle_capacities params = None"
    using that by (simp add: vehicle_caps_of_def Let_def py_slice_to_def)
  moreover have "(int (length raw) < num_cars params \<longrightarrow>
               vehicle_caps_of params
                 = raw @ replicate (nat (num_cars params - int (length raw)))
                           (capacity_per_car params))
          \<and> (num_cars params < int (length raw) \<longrightarrow>
               vehicle_caps_of params = py_slice_to raw (num_cars params)
               \<and> (0 \<le> num_cars params \<longrightarrow>
                    vehicle_caps_of params = take (nat (num_cars params)) raw))
          \<and> (int (length raw) = num_cars params \<longrightarrow> vehicle_caps_of params = raw)"
    if "vehicle_capacities params = Some raw" for raw
    using that by (simp add: vehicle_caps_of_def Let_def py_slice_to_take)
  ultimately show ?thesis
    using capacity_error_iff[OF assms] by blast
qed

theorem capacities_normalised_and_checked_witness:
  "guests3 \<noteq> []
   \<and> vehicle_capacities params3 = None
   \<and> vehicle_caps_of params3 = replicate (nat (num_cars params3)) (capacity_per_car params3)
   \<and> vehicle_capacities padded_params = Some [4, 0]
   \<and> int (length [4, 0 :: int]) < num_cars padded_params
   \<and> vehicle_caps_of padded_params = [4, 0, 2]
   \<and> vehicle_capacities zero_cap_params = Some [0, 3]
   \<and> num_cars zero_cap_params < int (length [0, 3 :: int])
   \<and> vehicle_caps_of zero_cap_params = take (nat (num_cars zero_cap_params)) [0, 3]
   \<and> solve_pickups_multitrip idle_solver guests3 padded_params
        = Inl (ValueError ''vehicle_capacities must be >= 1'')
   \<and> solve_pickups_multitrip idle_solver guests3 params3
        \<noteq> Inl (ValueError ''vehicle_capacities must be >= 1'')"
proof -
  have ne: "guests3 \<noteq> []" by (simp add: guests3_def)
  have none: "vehicle_capacities params3 = None" by (simp add: params3_def)
  have pad: "vehicle_capacities padded_params = Some [4, 0]"
    "int (length [4, 0 :: int]) < num_cars padded_params"
    "num_cars padded_params = 3" "capacity_per_car padded_params = 2"
    by (simp_all add: padded_params_def params3_def)
  have zero: "vehicle_capacities zero_cap_params = Some [0, 3]"
    "num_cars zero_cap_params < int (length [0, 3 :: int])" "0 \<le> num_cars zero_cap_params"
    by (simp_all add: zero_cap_params_def stray_rule_params_def params3_def)
  note A = capacities_normalised_and_checked[OF ne, of params3 idle_solver]
  note B = capacities_normalised_and_checked[OF ne, of padded_params idle_solver]
  note C = capacities_normalised_and_checked[OF ne, of zero_cap_params idle_solver]
  have 1: "vehicle_caps_of params3
      = replicate (nat (num_cars params3)) (capacity_per_car params3)"
    using A none by blast
  have "vehicle_caps_of padded_params
      = [4, 0] @ replicate (nat (num_cars padded_params - int (length [4, 0 :: int])))
                   (capacity_per_car padded_params)"
    using B pad(1,2) by blast
  then have 2: "vehicle_caps_of padded_params = [4, 0, 2]"
    by (simp add: pad(3,4))
  have 3: "vehicle_caps_of zero_cap_params = take (nat (num_cars zero_cap_params)) [0, 3]"
    using C zero by blast
  have "\<exists>c \<in> set (vehicle_caps_of padded_params). c < 1"
    by (simp add: 2)
  then have 4: "solve_pickups_multitrip idle_solver guests3 padded_params
        = Inl (ValueError ''vehicle_capacities must be >= 1'')"
    using B by blast
  have "\<not> (\<exists>c \<in> set (vehicle_caps_of params3). c < 1)"
    by (simp add: caps3)
  then have 5: "solve_pickups_multitrip idle_solver guests3 params3
        \<noteq> Inl (ValueError ''vehicle_capacities must be >= 1'')"
    using A by blast
  show ?thesis
    using ne none pad(1,2) zero(1,2) 1 2 3 4 5 by blast
qed

text \<open>
  Claim C4 as stated says the solve fails with a validation error only if a capacity is
  below one. With the capacities \<open>[2]\<close>, a grouping rule that names unknown guests makes
  it fail with the \<open>ValueError\<close> of line 177.
\<close>

theorem capacity_check_only_if_counterexample:
  "vehicle_caps_of stray_rule_params = [2]
   \<and> solve_pickups_multitrip idle_solver guests3 stray_rule_params
      = Inl (ValueError ''must_ride_together_in_vehicle guest ids not found'')"
  using stray_rule_error[of idle_solver]
  by (simp add: vehicle_caps_of_def stray_rule_params_def params3_def)

text \<open>
  Claim C8, amended. Let the guest ids be distinct and let the solve of a guest list
  return a result with status \<open>ok\<close>, from a solver that keeps its contract. Then for
  every reordering of the list there is a solver that keeps the contract and returns, for
  the reordered list, a result with status \<open>ok\<close>, the same total wait, the same number
  of trips and, trip by trip, the same trip index, vehicle, times and guests; and when the
  answer for the first order is optimal, so is this answer for the reordered list.
  Moreover, whenever the answers of the two solves are both optimal for their models, the
  two results have the same objective, total wait plus number of trips, whichever solver
  solved the reordered list.
\<close>

theorem reordering_preserves_outcomes:
  assumes "is_perm p (length guests)"
    and "distinct (map guest_id guests)"
    and "solver_contract solver"
    and "solve_pickups_multitrip solver guests params = Inr r"
    and "status r = ''ok''"
  shows "(\<exists>solver' r' ts ts'.
           solver_contract solver'
         \<and> solve_pickups_multitrip solver' (reorder p guests) params = Inr r'
         \<and> status r' = ''ok''
         \<and> total_wait_min r' = total_wait_min r
         \<and> num_trips_used r' = num_trips_used r
         \<and> trips r = Some ts \<and> trips r' = Some ts'
         \<and> list_all2 same_trip ts ts'
         \<and> (optimal (snd (solver (model_of guests params))) (model_of guests params) \<longrightarrow>
              optimal (snd (solver' (model_of (reorder p guests) params)))
                (model_of (reorder p guests) params)))
       \<and> (\<forall>solver2 r2.
             solver_contract solver2
           \<and> solve_pickups_multitrip solver2 (reorder p guests) params = Inr r2
           \<and> status r2 = ''ok''
           \<and> optimal (snd (solver (model_of guests params))) (model_of guests params)
           \<and> optimal (snd (solver2 (model_of (reorder p guests) params)))
                (model_of (reorder p guests) params)
           \<longrightarrow> result_objective r2 = result_objective r)"
proof (cases "guests = []")
  case True
  then have g': "reorder p guests = []"
    using assms(1) by (simp add: reorder_def is_perm_Nil)
  from True have r: "r = empty_result params"
    using solve_Inr_cases[OF assms(4)] by simp
  have A: "\<exists>solver' r' ts ts'.
           solver_contract solver'
         \<and> solve_pickups_multitrip solver' (reorder p guests) params = Inr r'
         \<and> status r' = ''ok''
         \<and> total_wait_min r' = total_wait_min r
         \<and> num_trips_used r' = num_trips_used r
         \<and> trips r = Some ts \<and> trips r' = Some ts'
         \<and> list_all2 same_trip ts ts'
         \<and> (optimal (snd (solver (model_of guests params))) (model_of guests params) \<longrightarrow>
              optimal (snd (solver' (model_of (reorder p guests) params)))
                (model_of (reorder p guests) params))"
    using assms(3,4) True g' r
    by (intro exI[of _ solver] exI[of _ r] exI[of _ "[]"]) (simp add: empty_result_def)
  have B: "result_objective r2 = result_objective r"
    if "solve_pickups_multitrip solver2 (reorder p guests) params = Inr r2" for solver2 r2
    using that r g' by (simp add: solve_pickups_multitrip_def)
  from A B show ?thesis by blast
next
  case False
  let ?caps = "vehicle_caps_of params"
  let ?K = "nat (num_cars params)"
  let ?g' = "reorder p guests"
  let ?mdl = "model_of guests params"
  let ?mdl' = "model_of ?g' params"
  let ?s = "snd (solver ?mdl)"
  let ?s' = "?s \<circ> rename p"
  from solve_ok_answer[OF assms(3,4,5) False] have
    mdl: "build_model guests params ?caps = Inr ?mdl"
    and sat: "satisfies ?s ?mdl"
    and r: "r = ok_result ?s guests params ?caps"
    by simp_all
  from model_rename[OF assms(1,2) False mdl sat] obtain mdl' where
    mdl'0: "build_model ?g' params ?caps = Inr mdl'"
    and sat'0: "satisfies ?s' mdl'"
    by blast
  have mdl': "build_model ?g' params ?caps = Inr ?mdl'" and sat': "satisfies ?s' ?mdl'"
    using mdl'0 sat'0 by (simp_all add: model_of_eq[OF mdl'0])
  have ne': "?g' \<noteq> []"
    using False by (simp add: reorder_Nil_iff[OF assms(1)])
  have solve': "solve_pickups_multitrip (replay_solver ?s') ?g' params
      = Inr (ok_result ?s' ?g' params ?caps)"
    using solve_Inr_caps[OF False assms(4)] ne' mdl' sat'
    by (simp add: solve_pickups_multitrip_def Let_def replay_solver_def)
  have ans': "snd (replay_solver ?s' ?mdl') = ?s'"
    by (simp add: replay_solver_def)
  have rel: "list_all2 same_trip (trips_out ?s guests ?caps ?K) (trips_out ?s' ?g' ?caps ?K)"
    by (rule trips_out_rename[OF assms(1)])
  then have len: "length (trips_out ?s' ?g' ?caps ?K) = length (trips_out ?s guests ?caps ?K)"
    by (simp add: list_all2_lengthD)
  have opt': "optimal (snd (replay_solver ?s' ?mdl')) ?mdl'" if "optimal ?s ?mdl"
    using optimal_reorder[OF assms(1,2) False mdl mdl' that] by (simp only: ans')
  have A: "\<exists>solver' r' ts ts'.
           solver_contract solver'
         \<and> solve_pickups_multitrip solver' ?g' params = Inr r'
         \<and> status r' = ''ok''
         \<and> total_wait_min r' = total_wait_min r
         \<and> num_trips_used r' = num_trips_used r
         \<and> trips r = Some ts \<and> trips r' = Some ts'
         \<and> list_all2 same_trip ts ts'
         \<and> (optimal ?s ?mdl \<longrightarrow> optimal (snd (solver' ?mdl')) ?mdl')"
    using replay_solver_contract[of ?s'] solve' rel len opt'
    by (intro exI[of _ "replay_solver ?s'"] exI[of _ "ok_result ?s' ?g' params ?caps"]
        exI[of _ "trips_out ?s guests ?caps ?K"] exI[of _ "trips_out ?s' ?g' ?caps ?K"])
       (simp add: r ok_result_def Let_def)
  have B: "result_objective r2 = result_objective r"
    if c2: "solver_contract solver2"
      and s2: "solve_pickups_multitrip solver2 ?g' params = Inr r2"
      and ok2: "status r2 = ''ok''"
      and o: "optimal ?s ?mdl"
      and o2: "optimal (snd (solver2 ?mdl')) ?mdl'" for solver2 r2
  proof -
    from solve_ok_answer[OF c2 s2 ok2 ne'] have
      sat2: "satisfies (snd (solver2 ?mdl')) ?mdl'"
      and r2: "r2 = ok_result (snd (solver2 ?mdl')) ?g' params ?caps"
      by simp_all
    have "result_objective r2 = Some (objective ?mdl' (snd (solver2 ?mdl')))"
      unfolding r2 by (rule result_objective_ok[OF mdl' sat2])
    also have "\<dots> = Some (objective ?mdl ?s)"
      using optimal_value_order_invariant[OF assms(1,2) False mdl mdl' o o2] by simp
    also have "\<dots> = result_objective r"
      unfolding r by (rule result_objective_ok[OF mdl sat, symmetric])
    finally show ?thesis .
  qed
  from A B show ?thesis by blast
qed

theorem reordering_preserves_outcomes_witness:
  "is_perm [1, 0] (length guests_ab)
   \<and> distinct (map guest_id guests_ab)
   \<and> solver_contract tie_solver
   \<and> solve_pickups_multitrip tie_solver guests_ab params2 = Inr result_ab
   \<and> status result_ab = ''ok''
   \<and> reorder [1, 0] guests_ab = guests_ba
   \<and> (\<exists>solver' r' ts ts'.
           solver_contract solver'
         \<and> solve_pickups_multitrip solver' guests_ba params2 = Inr r'
         \<and> status r' = ''ok''
         \<and> total_wait_min r' = total_wait_min result_ab
         \<and> num_trips_used r' = num_trips_used result_ab
         \<and> trips result_ab = Some ts \<and> trips r' = Some ts'
         \<and> list_all2 same_trip ts ts'
         \<and> optimal (snd (solver' (model_of guests_ba params2))) (model_of guests_ba params2))
   \<and> solve_pickups_multitrip tie_solver guests_ba params2 = Inr result_ba
   \<and> status result_ba = ''ok''
   \<and> optimal (snd (tie_solver (model_of guests_ab params2))) (model_of guests_ab params2)
   \<and> optimal (snd (tie_solver (model_of guests_ba params2))) (model_of guests_ba params2)
   \<and> result_objective result_ba = result_objective result_ab
   \<and> result_objective result_ab = Some 2"
proof -
  have perm: "is_perm [1, 0] (length guests_ab)"
    by (auto simp add: is_perm_def guests_ab_def)
  have ids: "distinct (map guest_id guests_ab)"
    by (simp add: guests_ab_def)
  have ok: "status result_ab = ''ok''" and ok2: "status result_ba = ''ok''"
    by (simp_all add: result_ab_def result_ba_def)
  have re: "reorder [1, 0] guests_ab = guests_ba"
    by (simp add: reorder_def guests_ab_def guests_ba_def)
  have o: "optimal (snd (tie_solver (model_of guests_ab params2))) (model_of guests_ab params2)"
    using optimal_together by (simp add: tie_solver_ab)
  have o2: "optimal (snd (tie_solver (model_of guests_ba params2))) (model_of guests_ba params2)"
    using optimal_apart by (simp add: tie_solver_ba)
  have two: "result_objective result_ab = Some 2"
    by (simp add: result_objective_def result_ab_def trip_penalty_def)
  note T = reordering_preserves_outcomes[OF perm ids tie_solver_contract solve_ab ok,
      unfolded re]
  from T o have A: "\<exists>solver' r' ts ts'.
           solver_contract solver'
         \<and> solve_pickups_multitrip solver' guests_ba params2 = Inr r'
         \<and> status r' = ''ok''
         \<and> total_wait_min r' = total_wait_min result_ab
         \<and> num_trips_used r' = num_trips_used result_ab
         \<and> trips result_ab = Some ts \<and> trips r' = Some ts'
         \<and> list_all2 same_trip ts ts'
         \<and> optimal (snd (solver' (model_of guests_ba params2))) (model_of guests_ba params2)"
    by blast
  from T tie_solver_contract solve_ba ok2 o o2
  have B: "result_objective result_ba = result_objective result_ab"
    by blast
  show ?thesis
    using perm ids tie_solver_contract solve_ab ok re A solve_ba ok2 o o2 B two by blast
qed

text \<open>
  Claim C8 as stated says that the solve of the reordered list has the same total wait
  and the same partition. For Ann at minute 0 and Bob at minute 1 the objective, total
  wait plus number of trips, is 2 both for one shared trip and for two separate trips. A
  solver that keeps its contract answers with the shared trip for the order Ann, Bob and
  with the separate trips for the order Bob, Ann, each answer optimal for its model: total
  wait 1 against 0, one trip against two.
\<close>

theorem reordering_changes_plan_counterexample:
  "guests_ba = rev guests_ab
   \<and> solver_contract tie_solver
   \<and> tie_solver (model_of guests_ab params2) = (FEASIBLE, plan_together)
   \<and> optimal plan_together (model_of guests_ab params2)
   \<and> tie_solver (model_of guests_ba params2) = (FEASIBLE, plan_apart)
   \<and> optimal plan_apart (model_of guests_ba params2)
   \<and> solve_pickups_multitrip tie_solver guests_ab params2 = Inr result_ab
   \<and> solve_pickups_multitrip tie_solver guests_ba params2 = Inr result_ba
   \<and> total_wait_min result_ab = Some 1
   \<and> total_wait_min result_ba = Some 0
   \<and> num_trips_used result_ab = Some 1
   \<and> num_trips_used result_ba = Some 2"
  using tie_solver_contract solve_ab solve_ba optimal_together optimal_apart
    tie_solver_ab tie_solver_ba
  by (simp add: guests_ab_def guests_ba_def result_ab_def result_ba_def)


end
